theory Spec2Isabelle
  imports Complex_Main "HOL-Library.Sublist"
begin

section \<open>Strings\<close>

text \<open>
  A JavaScript string is modelled as a \<^typ>\<open>string\<close>: the list of its code units, each
  \<^typ>\<open>char\<close> read as the code point U+0000 .. U+00FF of the same number. Strings with
  code units beyond U+00FF are outside the model.

  \<open>String.prototype.toLowerCase\<close> maps A-Z and the capital letters of the Latin-1
  supplement (U+00C0 .. U+00DE without the multiplication sign U+00D7) to the letter 32
  code points further, and leaves every other code point of this range alone.
\<close>

definition lower_char :: "char \<Rightarrow> char" where
  "lower_char c =
     (let n = (of_char c :: nat)
      in if (65 \<le> n \<and> n \<le> 90) \<or> (192 \<le> n \<and> n \<le> 222 \<and> n \<noteq> 215)
         then char_of (n + 32) else c)"

definition toLowerCase :: "string \<Rightarrow> string" where
  "toLowerCase s = map lower_char s"

text \<open>\<open>text.includes(pat)\<close>: \<open>pat\<close> occurs in \<open>text\<close> as a contiguous run.\<close>

fun starts_with :: "string \<Rightarrow> string \<Rightarrow> bool" where
  "starts_with text [] = True"
| "starts_with [] (p # ps) = False"
| "starts_with (c # cs) (p # ps) = (c = p \<and> starts_with cs ps)"

fun js_includes :: "string \<Rightarrow> string \<Rightarrow> bool" where
  "js_includes [] pat = starts_with [] pat"
| "js_includes (c # cs) pat = (starts_with (c # cs) pat \<or> js_includes cs pat)"

text \<open>
  \<open>s.split(' ')\<close>: the pieces between the occurrences of the separator, empty pieces
  included; the empty string gives one empty piece.
\<close>

fun js_split :: "char \<Rightarrow> string \<Rightarrow> string list" where
  "js_split sep [] = [[]]"
| "js_split sep (c # cs) =
     (if c = sep then [] # js_split sep cs
      else (case js_split sep cs of
              [] \<Rightarrow> [[c]]
            | w # ws \<Rightarrow> (c # w) # ws))"

text \<open>\<open>xs.join(sep)\<close>\<close>

fun js_join :: "string \<Rightarrow> string list \<Rightarrow> string" where
  "js_join sep [] = []"
| "js_join sep [x] = x"
| "js_join sep (x # y # ys) = x @ sep @ js_join sep (y # ys)"

text \<open>\<open>s.charAt(i)\<close>: the one-character string at index \<open>i\<close>, empty out of range.\<close>

definition charAt :: "string \<Rightarrow> nat \<Rightarrow> string" where
  "charAt s i = (if i < length s then [s ! i] else [])"


section \<open>Edit distance\<close>

text \<open>
  A JavaScript array that is filled without holes is a list. Reading an index out of
  range gives \<open>undefined\<close>, here \<open>None\<close>. Writing at an index below the length
  overwrites, writing at the length appends; a write further out would leave holes, which
  a list does not have, so it is \<open>None\<close> as well. A computation that meets \<open>None\<close>
  has left the model and is \<open>None\<close> as a whole.
\<close>

definition js_get :: "'a list \<Rightarrow> nat \<Rightarrow> 'a option" where
  "js_get xs i = (if i < length xs then Some (xs ! i) else None)"

definition js_set :: "'a list \<Rightarrow> nat \<Rightarrow> 'a \<Rightarrow> 'a list option" where
  "js_set xs i v =
     (if i < length xs then Some (xs[i := v])
      else if i = length xs then Some (xs @ [v])
      else None)"

text \<open>\<open>matrix[i][j]\<close> read, and \<open>matrix[i][j] = v\<close>.\<close>

definition get_cell :: "nat list list \<Rightarrow> nat \<Rightarrow> nat \<Rightarrow> nat option" where
  "get_cell matrix i j =
     (case js_get matrix i of
        None \<Rightarrow> None
      | Some row \<Rightarrow> js_get row j)"

definition set_cell :: "nat list list \<Rightarrow> nat \<Rightarrow> nat \<Rightarrow> nat \<Rightarrow> nat list list option" where
  "set_cell matrix i j v =
     (case js_get matrix i of
        None \<Rightarrow> None
      | Some row \<Rightarrow>
          (case js_set row j v of
             None \<Rightarrow> None
           | Some row' \<Rightarrow> Some (matrix[i := row'])))"

text \<open>\<open>for (let i = 0; i <= str2.length; i++) matrix[i] = [i]\<close>, with \<open>n = str2.length\<close>.\<close>

function init_rows :: "nat \<Rightarrow> nat \<Rightarrow> nat list list \<Rightarrow> nat list list option" where
  "init_rows i n matrix =
     (if i \<le> n
      then (case js_set matrix i [i] of
              None \<Rightarrow> None
            | Some m \<Rightarrow> init_rows (Suc i) n m)
      else Some matrix)"
  by pat_completeness auto
termination
  by (relation "measure (\<lambda>(i, n, m). Suc n - i)") auto

text \<open>\<open>for (let j = 0; j <= str1.length; j++) matrix[0][j] = j\<close>, with \<open>n = str1.length\<close>.\<close>

function init_cols :: "nat \<Rightarrow> nat \<Rightarrow> nat list list \<Rightarrow> nat list list option" where
  "init_cols j n matrix =
     (if j \<le> n
      then (case set_cell matrix 0 j j of
              None \<Rightarrow> None
            | Some m \<Rightarrow> init_cols (Suc j) n m)
      else Some matrix)"
  by pat_completeness auto
termination
  by (relation "measure (\<lambda>(j, n, m). Suc n - j)") auto

text \<open>The value the body of the inner loop stores in \<open>matrix[i][j]\<close>.\<close>

definition cell_value :: "string \<Rightarrow> string \<Rightarrow> nat \<Rightarrow> nat \<Rightarrow> nat list list \<Rightarrow> nat option" where
  "cell_value str1 str2 i j matrix =
     (if charAt str2 (i - 1) = charAt str1 (j - 1)
      then get_cell matrix (i - 1) (j - 1)
      else (case get_cell matrix (i - 1) (j - 1) of
              None \<Rightarrow> None
            | Some diag \<Rightarrow>
                (case get_cell matrix i (j - 1) of
                   None \<Rightarrow> None
                 | Some left \<Rightarrow>
                     (case get_cell matrix (i - 1) j of
                        None \<Rightarrow> None
                      | Some up \<Rightarrow> Some (min (diag + 1) (min (left + 1) (up + 1)))))))"

text \<open>The inner loop \<open>for (let j = 1; j <= str1.length; j++)\<close> of row \<open>i\<close>.\<close>

function fill_row :: "string \<Rightarrow> string \<Rightarrow> nat \<Rightarrow> nat \<Rightarrow> nat list list \<Rightarrow> nat list list option" where
  "fill_row str1 str2 i j matrix =
     (if j \<le> length str1
      then (case cell_value str1 str2 i j matrix of
              None \<Rightarrow> None
            | Some v \<Rightarrow>
                (case set_cell matrix i j v of
                   None \<Rightarrow> None
                 | Some m \<Rightarrow> fill_row str1 str2 i (Suc j) m))
      else Some matrix)"
  by pat_completeness auto
termination
  by (relation "measure (\<lambda>(str1, str2, i, j, m). Suc (length str1) - j)") auto

text \<open>The outer loop \<open>for (let i = 1; i <= str2.length; i++)\<close>.\<close>

function fill_rows :: "string \<Rightarrow> string \<Rightarrow> nat \<Rightarrow> nat list list \<Rightarrow> nat list list option" where
  "fill_rows str1 str2 i matrix =
     (if i \<le> length str2
      then (case fill_row str1 str2 i 1 matrix of
              None \<Rightarrow> None
            | Some m \<Rightarrow> fill_rows str1 str2 (Suc i) m)
      else Some matrix)"
  by pat_completeness auto
termination
  by (relation "measure (\<lambda>(str1, str2, i, m). Suc (length str2) - i)") auto

definition levenshteinDistance :: "string \<Rightarrow> string \<Rightarrow> nat option" where
  "levenshteinDistance str1 str2 =
     (case init_rows 0 (length str2) [] of
        None \<Rightarrow> None
      | Some m1 \<Rightarrow>
          (case init_cols 0 (length str1) m1 of
             None \<Rightarrow> None
           | Some m2 \<Rightarrow>
               (case fill_rows str1 str2 1 m2 of
                  None \<Rightarrow> None
                | Some m3 \<Rightarrow> get_cell m3 (length str2) (length str1))))"

text \<open>
  The reference recurrence of the Levenshtein distance: the distance to the empty string
  is the length, equal first characters are copied from the diagonal, and otherwise one
  operation is added to the least of the three neighbours.
\<close>

fun lev :: "'a list \<Rightarrow> 'a list \<Rightarrow> nat" where
  "lev [] ys = length ys"
| "lev (x # xs) [] = Suc (length xs)"
| "lev (x # xs) (y # ys) =
     (if x = y then lev xs ys
      else 1 + min (lev xs ys) (min (lev (x # xs) ys) (lev xs (y # ys))))"

text \<open>
  The edit distance itself: \<open>edits n xs ys\<close> holds when \<open>n\<close> insertions, deletions
  and substitutions of single characters turn \<open>xs\<close> into \<open>ys\<close>.
\<close>

inductive edits :: "nat \<Rightarrow> 'a list \<Rightarrow> 'a list \<Rightarrow> bool" where
  edits_Nil: "edits 0 [] []"
| edits_keep: "edits n xs ys \<Longrightarrow> edits n (x # xs) (x # ys)"
| edits_subst: "edits n xs ys \<Longrightarrow> edits (Suc n) (x # xs) (y # ys)"
| edits_delete: "edits n xs ys \<Longrightarrow> edits (Suc n) (x # xs) ys"
| edits_insert: "edits n xs ys \<Longrightarrow> edits (Suc n) xs (y # ys)"

code_pred edits .


declare init_rows.simps [simp del] init_cols.simps [simp del]
  fill_row.simps [simp del] fill_rows.simps [simp del]


section \<open>Fuzzy matching\<close>

text \<open>
  Numbers that are quotients of lengths are rationals. \<open>levenshteinDistance\<close> is a
  number or, in this model, \<open>None\<close>; arithmetic on what is not a number gives what is
  not a number, and a comparison with it is false.

  JavaScript divides in binary floating point and compares with the double nearest to
  0.7. For strings shorter than \<open>10^15\<close> code units the quotient \<open>(l - d) / l\<close> of
  two integers is either exactly \<open>7/10\<close>, and then rounds to that same double, or is
  at least \<open>1 / (10 * l)\<close> away from it, which is more than the rounding error; so the
  comparison of the rationals decides as the comparison of the doubles does.
\<close>

definition calculateSimilarity :: "string \<Rightarrow> string \<Rightarrow> rat option" where
  "calculateSimilarity str1 str2 =
     (let longer = (if length str1 > length str2 then str1 else str2);
          shorter = (if length str1 > length str2 then str2 else str1)
      in if length longer = 0 then Some 1
         else (case levenshteinDistance longer shorter of
                 None \<Rightarrow> None
               | Some editDistance \<Rightarrow>
                   Some ((of_nat (length longer) - of_nat editDistance) / of_nat (length longer))))"

definition fuzzy_word :: "string \<Rightarrow> string \<Rightarrow> bool" where
  "fuzzy_word term word =
     (if length word < 3 \<or> length term < 3 then False
      else (case calculateSimilarity term word of
              None \<Rightarrow> False
            | Some similarity \<Rightarrow> similarity > 7 / 10))"

definition fuzzyMatch :: "string \<Rightarrow> string \<Rightarrow> bool" where
  "fuzzyMatch term content = list_ex (fuzzy_word term) (js_split CHR '' '' content)"

text \<open>
  The similarity and the fuzzy match as the specification words them: one minus the edit
  distance of the longer and the shorter string over the length of the longer, and a
  match of some word of the text split on whitespace.
\<close>

definition similarity_spec :: "string \<Rightarrow> string \<Rightarrow> rat" where
  "similarity_spec a b =
     (let longer = (if length a \<ge> length b then a else b);
          shorter = (if length a \<ge> length b then b else a)
      in if length longer = 0 then 1
         else 1 - of_nat (lev longer shorter) / of_nat (length longer))"

definition is_whitespace :: "char \<Rightarrow> bool" where
  "is_whitespace c \<longleftrightarrow> c \<in> set [CHR '' '', CHR 0x09, CHR 0x0A, CHR 0x0B, CHR 0x0C, CHR 0x0D]"

fun words_aux :: "string \<Rightarrow> string \<Rightarrow> string list" where
  "words_aux w [] = (if w = [] then [] else [rev w])"
| "words_aux w (c # cs) =
     (if is_whitespace c then (if w = [] then words_aux [] cs else rev w # words_aux [] cs)
      else words_aux (c # w) cs)"

definition whitespace_words :: "string \<Rightarrow> string list" where
  "whitespace_words s = words_aux [] s"

definition fuzzyMatch_spec :: "string \<Rightarrow> string \<Rightarrow> bool" where
  "fuzzyMatch_spec term text =
     list_ex (\<lambda>word. 3 \<le> length term \<and> 3 \<le> length word \<and> similarity_spec term word > 7 / 10)
       (whitespace_words text)"


section \<open>Query enhancement\<close>

text \<open>The synonym table, in the order of its declaration, which \<open>Object.keys\<close> keeps.\<close>

definition synonyms :: "(string \<times> string list) list" where
  "synonyms =
     [(''travel'', [''trip'', ''journey'', ''vacation'', ''tour'']),
      (''food'', [''cuisine'', ''dining'', ''restaurant'', ''meal'']),
      (''hotel'', [''accommodation'', ''lodging'', ''stay'']),
      (''activity'', [''attraction'', ''experience'', ''thing to do''])]"

text \<open>One round of the \<open>forEach\<close> over the keys: \<open>enhancedQuery\<close> is the variable it updates.\<close>

definition enhance_step :: "string \<Rightarrow> string \<times> string list \<Rightarrow> string \<Rightarrow> string" where
  "enhance_step query entry enhancedQuery =
     (if js_includes (toLowerCase query) (fst entry)
      then enhancedQuery @ '' '' @ js_join '' '' (snd entry)
      else enhancedQuery)"

definition enhanceQuery :: "string \<Rightarrow> string" where
  "enhanceQuery query = fold (enhance_step query) synonyms query"


section \<open>Content entries\<close>

text \<open>
  An entry is a JSON object of the content store: its own properties in the order in which
  \<open>Object.values\<close> lists them. A number of JSON is a rational.
\<close>

datatype jsval =
    JUndefined
  | JNull
  | JBool bool
  | JNum rat
  | JStr string
  | JArr "jsval list"
  | JObj "(string \<times> jsval) list"

type_synonym entry = "(string \<times> jsval) list"

text \<open>\<open>entry.key\<close>: the value of the property, \<open>undefined\<close> when there is none.\<close>

definition get_prop :: "entry \<Rightarrow> string \<Rightarrow> jsval" where
  "get_prop entry key = (case map_of entry key of None \<Rightarrow> JUndefined | Some v \<Rightarrow> v)"

fun truthy :: "jsval \<Rightarrow> bool" where
  "truthy JUndefined = False"
| "truthy JNull = False"
| "truthy (JBool b) = b"
| "truthy (JNum r) = (r \<noteq> 0)"
| "truthy (JStr s) = (s \<noteq> [])"
| "truthy (JArr xs) = True"
| "truthy (JObj ps) = True"

text \<open>\<open>a || b\<close>\<close>

definition js_or :: "jsval \<Rightarrow> jsval \<Rightarrow> jsval" where
  "js_or a b = (if truthy a then a else b)"

text \<open>
  What a call throws. The message of a \<open>TypeError\<close> is the engine's wording and is kept
  as the engine gives it; \<open>not_a_function\<close> stands for the one of calling a method that
  the value does not have.
\<close>

datatype js_error = TypeError string | Error string

fun error_message :: "js_error \<Rightarrow> string" where
  "error_message (TypeError m) = m"
| "error_message (Error m) = m"

definition not_a_function :: "string" where
  "not_a_function = ''toLowerCase is not a function''"

text \<open>
  \<open>v.toLowerCase()\<close> on a value: only a string has the method. On any other value of
  JSON the call throws a \<open>TypeError\<close>: \<open>undefined\<close> and \<open>null\<close> have no properties,
  and a number, a boolean, an array or an object has no function under that name.
\<close>

fun call_toLowerCase :: "jsval \<Rightarrow> js_error + string" where
  "call_toLowerCase (JStr s) = Inr (toLowerCase s)"
| "call_toLowerCase v = Inl (TypeError not_a_function)"

text \<open>\<open>Object.values(entry).filter(value => typeof value === 'string')\<close>\<close>

fun string_values :: "entry \<Rightarrow> string list" where
  "string_values [] = []"
| "string_values ((k, JStr s) # ps) = s # string_values ps"
| "string_values ((k, v) # ps) = string_values ps"

text \<open>
  One round of \<open>searchTerms.forEach\<close> in \<open>searchContent\<close> and in
  \<open>intelligentSearch\<close>: \<open>score\<close> is the variable it updates.
\<close>

definition plain_term :: "string \<Rightarrow> string \<Rightarrow> string \<Rightarrow> string \<Rightarrow> int \<Rightarrow> int" where
  "plain_term title description allText term score =
     (let score1 = (if js_includes title term then score + 5 else score);
          score2 = (if js_includes description term then score1 + 3 else score1)
      in if js_includes allText term then score2 + 1 else score2)"

definition intelligent_term :: "string \<Rightarrow> string \<Rightarrow> string \<Rightarrow> string \<Rightarrow> int \<Rightarrow> int" where
  "intelligent_term title description content term score =
     (let score1 = (if js_includes title term then score + 5 else score);
          score2 = (if js_includes description term then score1 + 2 else score1)
      in if fuzzyMatch term content then score2 + 1 else score2)"

text \<open>
  The copy \<open>{ ...entry, score }\<close> or \<open>{ ...entry, score, relevance }\<close> of an entry: the
  entry and the properties written over it. \<open>relevance\<close> is \<open>None\<close> where the copy has
  no such property of its own making.
\<close>

record scored =
  entry :: entry
  score :: int
  relevance :: "rat option"

text \<open>What a search returns: entries as they were fetched, or scored copies.\<close>

datatype hit = Plain entry | Annotated scored


section \<open>Ranking\<close>

text \<open>
  \<open>maxResults\<close> is a number: a rational or \<open>NaN\<close>, which is what \<open>parseInt\<close> gives
  for text that is no number.
\<close>

datatype js_number = Num rat | NaN

text \<open>The integer that \<open>slice\<close> makes of its argument: \<open>NaN\<close> is 0, a fraction is cut off.\<close>

fun to_integer :: "js_number \<Rightarrow> int" where
  "to_integer NaN = 0"
| "to_integer (Num r) = (if r < 0 then \<lceil>r\<rceil> else \<lfloor>r\<rfloor>)"

text \<open>\<open>xs.slice(0, end)\<close>: a negative \<open>end\<close> counts from the end of the array.\<close>

definition slice0 :: "'a list \<Rightarrow> js_number \<Rightarrow> 'a list" where
  "slice0 xs end =
     (let len = int (length xs);
          relativeEnd = to_integer end;
          final = (if relativeEnd < 0 then max (len + relativeEnd) 0 else min relativeEnd len)
      in take (nat final) xs)"

text \<open>
  \<open>xs.sort(compare)\<close>: the sort of an array is stable, so for a comparator that is
  consistent it is the insertion of each element before the first one that it does not
  come after.
\<close>

fun insert_by :: "('a \<Rightarrow> 'a \<Rightarrow> int) \<Rightarrow> 'a \<Rightarrow> 'a list \<Rightarrow> 'a list" where
  "insert_by compare x [] = [x]"
| "insert_by compare x (y # ys) =
     (if compare x y \<le> 0 then x # y # ys else y # insert_by compare x ys)"

definition js_sort :: "('a \<Rightarrow> 'a \<Rightarrow> int) \<Rightarrow> 'a list \<Rightarrow> 'a list" where
  "js_sort compare xs = foldr (insert_by compare) xs []"

text \<open>
  \<open>scoredEntries.filter(entry => entry.score > 0).sort((a, b) => b.score - a.score)
  .slice(0, maxResults)\<close>, the end of both searches.
\<close>

definition by_score :: "scored \<Rightarrow> scored \<Rightarrow> int" where
  "by_score a b = score b - score a"

definition ranked :: "scored list \<Rightarrow> js_number \<Rightarrow> scored list" where
  "ranked scoredEntries maxResults =
     slice0 (js_sort by_score (filter (\<lambda>entry. score entry > 0) scoredEntries)) maxResults"

text \<open>\<open>entries.map(f)\<close> for an \<open>f\<close> that may throw: the first throw ends the map.\<close>

fun map_throwing :: "('a \<Rightarrow> js_error + 'b) \<Rightarrow> 'a list \<Rightarrow> js_error + 'b list" where
  "map_throwing f [] = Inr []"
| "map_throwing f (x # xs) =
     (case f x of
        Inl e \<Rightarrow> Inl e
      | Inr y \<Rightarrow> (case map_throwing f xs of Inl e \<Rightarrow> Inl e | Inr ys \<Rightarrow> Inr (y # ys)))"



section \<open>Plain search\<close>

text \<open>The title and the description that \<open>searchContent\<close> reads, before lowercasing.\<close>

definition title_value :: "entry \<Rightarrow> jsval" where
  "title_value e = js_or (get_prop e ''title'') (JStr [])"

definition description_plain :: "entry \<Rightarrow> jsval" where
  "description_plain e =
     js_or (js_or (js_or (js_or (js_or (get_prop e ''description'')
                                       (get_prop e ''paris''))
                                (get_prop e ''india''))
                         (get_prop e ''content''))
                  (get_prop e ''body''))
           (JStr [])"

definition all_text :: "entry \<Rightarrow> string" where
  "all_text e = toLowerCase (js_join '' '' (string_values e))"

text \<open>The function mapped over the entries.\<close>

definition score_plain :: "string list \<Rightarrow> entry \<Rightarrow> js_error + scored" where
  "score_plain searchTerms e =
     (case call_toLowerCase (title_value e) of
        Inl err \<Rightarrow> Inl err
      | Inr title \<Rightarrow>
          (case call_toLowerCase (description_plain e) of
             Inl err \<Rightarrow> Inl err
           | Inr description \<Rightarrow>
               Inr \<lparr>entry = e,
                    score = fold (plain_term title description (all_text e)) searchTerms 0,
                    relevance = None\<rparr>))"


section \<open>The content store\<close>

text \<open>
  The error of a failed request: the \<open>error_message\<close> of the response body, when the
  store sent one, and the message of the error object.
\<close>

record upstream_error =
  api_error_message :: "string option"
  message :: string

text \<open>\<open>error.response?.data?.error_message || error.message\<close>\<close>

definition upstream_text :: "upstream_error \<Rightarrow> string" where
  "upstream_text err =
     (case api_error_message err of
        None \<Rightarrow> message err
      | Some m \<Rightarrow> if m \<noteq> [] then m else message err)"

text \<open>
  A request fails, or is answered with a body whose \<open>entries\<close> are a list of entries or
  are missing. The world outside is the answer of the store to each request, by content
  type, limit and the number of requests served before it.
\<close>

datatype http_outcome = Fails upstream_error | Responds "entry list option"

record world =
  served :: nat
  store :: "string \<Rightarrow> nat \<Rightarrow> nat \<Rightarrow> http_outcome"

definition getAllEntries :: "string \<Rightarrow> nat \<Rightarrow> world \<Rightarrow> (js_error + entry list) \<times> world" where
  "getAllEntries contentType limit w =
     (let w' = w\<lparr>served := Suc (served w)\<rparr>
      in case store w contentType limit (served w) of
           Fails err \<Rightarrow> (Inl (Error (''Failed to fetch entries: '' @ upstream_text err)), w')
         | Responds entries \<Rightarrow> (Inr (case entries of None \<Rightarrow> [] | Some es \<Rightarrow> es), w'))"

text \<open>The \<open>catch\<close> of \<open>searchContent\<close>: an error caught there has no \<open>response\<close>.\<close>

definition search_failure :: "js_error \<Rightarrow> js_error" where
  "search_failure err = Error (''Failed to search content: '' @ error_message err)"

text \<open>
  What \<open>searchContent\<close> does with the entries it fetched. The query is a string, of
  which \<open>!query\<close> holds when it is empty; \<open>contentType\<close> and \<open>maxResults\<close> are
  given by the caller, so their defaults play no part.
\<close>

definition searchContent_body :: "entry list \<Rightarrow> string \<Rightarrow> js_number \<Rightarrow> js_error + hit list" where
  "searchContent_body entries query maxResults =
     (if query = [] then Inr (map Plain (slice0 entries maxResults))
      else (let searchTerms = js_split CHR '' '' (toLowerCase query)
            in case map_throwing (score_plain searchTerms) entries of
                 Inl err \<Rightarrow> Inl err
               | Inr scoredEntries \<Rightarrow> Inr (map Annotated (ranked scoredEntries maxResults))))"

definition searchContent ::
    "string \<Rightarrow> string \<Rightarrow> js_number \<Rightarrow> world \<Rightarrow> (js_error + hit list) \<times> world" where
  "searchContent query contentType maxResults w =
     (case getAllEntries contentType 100 w of
        (Inl err, w') \<Rightarrow> (Inl (search_failure err), w')
      | (Inr entries, w') \<Rightarrow>
          (case searchContent_body entries query maxResults of
             Inl err \<Rightarrow> (Inl (search_failure err), w')
           | Inr result \<Rightarrow> (Inr result, w')))"


section \<open>Intelligent search\<close>

definition description_intelligent :: "entry \<Rightarrow> jsval" where
  "description_intelligent e =
     js_or (js_or (js_or (get_prop e ''description'') (get_prop e ''paris''))
                  (get_prop e ''india''))
           (JStr [])"

definition score_intelligent :: "string \<Rightarrow> string list \<Rightarrow> entry \<Rightarrow> js_error + scored" where
  "score_intelligent query searchTerms e =
     (case call_toLowerCase (title_value e) of
        Inl err \<Rightarrow> Inl err
      | Inr title \<Rightarrow>
          (case call_toLowerCase (description_intelligent e) of
             Inl err \<Rightarrow> Inl err
           | Inr description \<Rightarrow>
               (let content = title @ '' '' @ description;
                    score0 = (if js_includes content (toLowerCase query) then 10 else 0);
                    score' = fold (intelligent_term title description content) searchTerms score0
                in Inr \<lparr>entry = e,
                        score = score',
                        relevance = Some (of_int score' / of_nat (max (length searchTerms) 1))\<rparr>)))"

definition intelligentSearch_body :: "entry list \<Rightarrow> string \<Rightarrow> js_number \<Rightarrow> js_error + hit list" where
  "intelligentSearch_body allEntries query maxResults =
     (if query = [] \<or> length allEntries = 0 then Inr (map Plain (slice0 allEntries maxResults))
      else (let enhancedQuery = enhanceQuery query;
                searchTerms = js_split CHR '' '' (toLowerCase enhancedQuery)
            in case map_throwing (score_intelligent query searchTerms) allEntries of
                 Inl err \<Rightarrow> Inl err
               | Inr scoredEntries \<Rightarrow> Inr (map Annotated (ranked scoredEntries maxResults))))"

text \<open>Whatever the \<open>try\<close> block throws, the \<open>catch\<close> returns what \<open>searchContent\<close> does.\<close>

definition intelligentSearch ::
    "string \<Rightarrow> string \<Rightarrow> js_number \<Rightarrow> world \<Rightarrow> (js_error + hit list) \<times> world" where
  "intelligentSearch query contentType maxResults w =
     (case getAllEntries contentType 100 w of
        (Inl err, w') \<Rightarrow> searchContent query contentType maxResults w'
      | (Inr allEntries, w') \<Rightarrow>
          (case intelligentSearch_body allEntries query maxResults of
             Inl err \<Rightarrow> searchContent query contentType maxResults w'
           | Inr result \<Rightarrow> (Inr result, w')))"


section \<open>Properties of a ranking\<close>

text \<open>
  \<open>ranked_from candidates out\<close>: every entry of \<open>out\<close> has a positive score, the
  scores do not increase along \<open>out\<close>, and the entries of one score are, in \<open>out\<close>, a
  leading part of the entries of that score in \<open>candidates\<close>, in their order there.
\<close>

definition ranked_from :: "scored list \<Rightarrow> scored list \<Rightarrow> bool" where
  "ranked_from candidates out \<longleftrightarrow>
     list_all (\<lambda>h. 0 < score h) out \<and>
     sorted_wrt (\<lambda>a b. score b \<le> score a) out \<and>
     list_all (\<lambda>h. prefix (filter (\<lambda>x. score x = score h) out)
                           (filter (\<lambda>x. score x = score h) candidates)) out"

text \<open>
  The length of \<open>out\<close> is at most the number \<open>maxResults\<close>; the number is not
  negative.
\<close>

fun at_most :: "js_number \<Rightarrow> 'a list \<Rightarrow> bool" where
  "at_most NaN out = False"
| "at_most (Num r) out = (of_nat (length out) \<le> r)"

fun non_negative :: "js_number \<Rightarrow> bool" where
  "non_negative NaN = False"
| "non_negative (Num r) = (0 \<le> r)"

text \<open>The entries that the request number \<open>k\<close> for a content type fetches, if it succeeds.\<close>

definition fetched_at :: "world \<Rightarrow> string \<Rightarrow> nat \<Rightarrow> entry list option" where
  "fetched_at w contentType k =
     (case store w contentType 100 k of
        Fails err \<Rightarrow> None
      | Responds entries \<Rightarrow> Some (case entries of None \<Rightarrow> [] | Some es \<Rightarrow> es))"

text \<open>A value that is a string or falsy: \<open>(v || '').toLowerCase()\<close> does not throw on it.\<close>

fun textual :: "jsval \<Rightarrow> bool" where
  "textual (JStr s) = True"
| "textual v = (\<not> truthy v)"

fun text_of :: "jsval \<Rightarrow> string" where
  "text_of (JStr s) = s"
| "text_of v = []"

text \<open>
  The score of intelligent search as the specification words it: the phrase bonus on the
  lowercased concatenation of title and description, and the weights of each term of the
  enhanced query split on whitespace.
\<close>

definition intelligent_score_spec :: "string \<Rightarrow> string \<Rightarrow> string \<Rightarrow> int" where
  "intelligent_score_spec title description query =
     (if js_includes (toLowerCase (title @ description)) (toLowerCase query) then 10 else 0) +
     sum_list (map (\<lambda>term.
         (if js_includes (toLowerCase title) term then 5 else 0) +
         (if js_includes (toLowerCase description) term then 2 else 0) +
         (if fuzzyMatch term (toLowerCase (title @ description)) then 1 else 0))
       (whitespace_words (enhanceQuery query)))"

text \<open>An entry whose fields read by the scoring are all strings or falsy.\<close>

definition scorable :: "entry \<Rightarrow> bool" where
  "scorable e \<longleftrightarrow>
     textual (get_prop e ''title'') \<and> textual (get_prop e ''description'') \<and>
     textual (get_prop e ''paris'') \<and> textual (get_prop e ''india'') \<and>
     textual (get_prop e ''content'') \<and> textual (get_prop e ''body'')"


section \<open>Sample entries and stores\<close>

text \<open>
  Two entries of the kind the content store holds, a third with a title in capitals, and an
  entry as the spreadsheet upload of this repository creates it: the description is empty
  and the cell of a column named Paris, a number, has become the field \<open>paris\<close>.
\<close>

definition paris_getaway :: entry where
  "paris_getaway = [(''title'', JStr ''Paris Getaway''), (''description'', JStr ''romantic trip'')]"

definition tokyo_adventure :: entry where
  "tokyo_adventure = [(''title'', JStr ''Tokyo Adventure''), (''description'', JStr ''city tour'')]"

definition paris_by_night :: entry where
  "paris_by_night = [(''title'', JStr ''PARIS by night''), (''description'', JStr ''evening walk'')]"

definition spreadsheet_entry :: entry where
  "spreadsheet_entry =
     [(''title'', JStr ''Paris weekend''), (''description'', JStr []), (''paris'', JNum 3)]"

text \<open>
  A store that answers every request with the three entries, one that holds the
  spreadsheet entry, one whose first request is refused with an \<open>error_message\<close> in the
  body of the response and whose later requests succeed, and one that is never reached, so
  that every request fails with no response and only the message of the error object.
\<close>

definition sample_store :: world where
  "sample_store =
     \<lparr>served = 0,
      store = (\<lambda>contentType limit k.
                 Responds (Some [paris_getaway, tokyo_adventure, paris_by_night]))\<rparr>"

definition spreadsheet_store :: world where
  "spreadsheet_store =
     \<lparr>served = 0,
      store = (\<lambda>contentType limit k. Responds (Some [paris_getaway, spreadsheet_entry]))\<rparr>"

definition invalid_token :: upstream_error where
  "invalid_token =
     \<lparr>api_error_message = Some ''Invalid token'',
      message = ''Request failed with status code 401''\<rparr>"

definition network_timeout :: upstream_error where
  "network_timeout =
     \<lparr>api_error_message = None,
      message = ''timeout of 5000ms exceeded''\<rparr>"

definition offline_store :: world where
  "offline_store = \<lparr>served = 0, store = (\<lambda>contentType limit k. Fails network_timeout)\<rparr>"

definition flaky_store :: world where
  "flaky_store =
     \<lparr>served = 0,
      store = (\<lambda>contentType limit k.
                 if k = 0 then Fails invalid_token
                 else Responds (Some [paris_getaway, tokyo_adventure, paris_by_night]))\<rparr>"


section \<open>The matrix of the distances\<close>

text \<open>
  The rows that the loops build: row \<open>i\<close> holds the distances of the first \<open>i\<close>
  characters of \<open>str2\<close> to the prefixes of \<open>str1\<close>; before the outer loop reaches
  a row it is \<open>[i]\<close>.
\<close>

definition dist_row :: "string \<Rightarrow> string \<Rightarrow> nat \<Rightarrow> nat \<Rightarrow> nat list" where
  "dist_row str1 str2 i j = map (\<lambda>k. lev (take i str2) (take k str1)) [0..<j]"

definition dist_matrix :: "string \<Rightarrow> string \<Rightarrow> nat \<Rightarrow> nat list list" where
  "dist_matrix str1 str2 i =
     map (\<lambda>k. if k < i then dist_row str1 str2 k (Suc (length str1)) else [k])
       [0..<Suc (length str2)]"



section \<open>The recurrence is the edit distance\<close>

lemma lev_Nil2 [simp]: "lev xs [] = length xs"
  by (cases xs) simp_all

lemma lev_sym: "lev xs ys = lev ys xs"
  by (induction xs ys rule: lev.induct) (simp_all add: min.commute min.left_commute)

lemma lev_step:
  "lev xs (y # ys) \<le> Suc (lev xs ys) \<and> lev xs ys \<le> Suc (lev (x # xs) ys)"
proof (induction "length xs + length ys" arbitrary: xs ys x y rule: less_induct)
  case less
  have ins: "lev xs (y # ys) \<le> Suc (lev xs ys)"
  proof (cases xs)
    case Nil
    then show ?thesis by simp
  next
    case (Cons a as)
    have "lev as ys \<le> Suc (lev (a # as) ys)"
      using less [of as ys] Cons by simp
    then show ?thesis using Cons by (auto simp: min_le_iff_disj)
  qed
  have del: "lev xs ys \<le> Suc (lev (x # xs) ys)"
  proof (cases ys)
    case Nil
    then show ?thesis by simp
  next
    case (Cons b bs)
    have a: "lev xs (b # bs) \<le> Suc (lev xs bs)"
      using less [of xs bs] Cons by simp
    have b: "lev xs bs \<le> Suc (lev (x # xs) bs)"
      using less [of xs bs] Cons by simp
    show ?thesis using Cons a b by (auto simp: min_def)
  qed
  from ins del show ?case by simp
qed

lemma lev_insert_le: "lev xs (y # ys) \<le> Suc (lev xs ys)"
  by (rule conjunct1 [OF lev_step])

lemma lev_delete_le: "lev (x # xs) ys \<le> Suc (lev xs ys)"
  using lev_insert_le [of ys x xs] by (simp add: lev_sym)

lemma lev_drop_left: "lev xs ys \<le> Suc (lev (x # xs) ys)"
  by (rule conjunct2 [OF lev_step])

lemma lev_drop_right: "lev xs ys \<le> Suc (lev xs (y # ys))"
  using lev_drop_left [of ys xs y] by (simp add: lev_sym)

lemma lev_subst_le: "lev (x # xs) (y # ys) \<le> Suc (lev xs ys)"
  by simp

lemma edits_lev: "edits (lev xs ys) xs ys"
proof (induction xs ys rule: lev.induct)
  case (1 ys)
  show ?case by (induction ys) (auto intro: edits.intros)
next
  case (2 x xs)
  have "edits (length zs) zs ([]::'a list)" for zs :: "'a list"
    by (induction zs) (auto intro: edits.intros)
  from this [of "x # xs"] show ?case by simp
next
  case (3 x xs y ys)
  show ?case
  proof (cases "x = y")
    case True
    with 3 show ?thesis by (auto intro: edits.intros)
  next
    case False
    let ?m = "min (lev xs ys) (min (lev (x # xs) ys) (lev xs (y # ys)))"
    have "?m = lev xs ys \<or> ?m = lev (x # xs) ys \<or> ?m = lev xs (y # ys)"
      by (simp add: min_def)
    then have "edits (Suc ?m) (x # xs) (y # ys)"
      using 3 False by (metis edits.intros(3,4,5))
    then show ?thesis using False by simp
  qed
qed

lemma lev_le_edits: "edits n xs ys \<Longrightarrow> lev xs ys \<le> n"
proof (induction rule: edits.induct)
  case edits_Nil
  show ?case by simp
next
  case (edits_keep n xs ys x)
  then show ?case by simp
next
  case (edits_subst n xs ys x y)
  then show ?case using lev_subst_le [of x xs y ys] by linarith
next
  case (edits_delete n xs ys x)
  then show ?case using lev_delete_le [of x xs ys] by linarith
next
  case (edits_insert n xs ys y)
  then show ?case using lev_insert_le [of xs y ys] by linarith
qed

lemma edits_snoc_keep: "edits n xs ys \<Longrightarrow> edits n (xs @ [a]) (ys @ [a])"
  by (induction rule: edits.induct) (auto intro: edits.intros)

lemma edits_snoc_subst: "edits n xs ys \<Longrightarrow> edits (Suc n) (xs @ [a]) (ys @ [b])"
  by (induction rule: edits.induct) (auto intro: edits.intros)

lemma edits_snoc_delete: "edits n xs ys \<Longrightarrow> edits (Suc n) (xs @ [a]) ys"
  by (induction rule: edits.induct) (auto intro: edits.intros)

lemma edits_snoc_insert: "edits n xs ys \<Longrightarrow> edits (Suc n) xs (ys @ [b])"
  by (induction rule: edits.induct) (auto intro: edits.intros)

lemma edits_rev: "edits n xs ys \<Longrightarrow> edits n (rev xs) (rev ys)"
  by (induction rule: edits.induct)
     (auto intro: edits.intros edits_snoc_keep edits_snoc_subst edits_snoc_delete edits_snoc_insert)

lemma lev_rev: "lev (rev xs) (rev ys) = lev xs ys"
proof (rule antisym)
  show "lev (rev xs) (rev ys) \<le> lev xs ys"
    by (rule lev_le_edits [OF edits_rev [OF edits_lev]])
  have "lev (rev (rev xs)) (rev (rev ys)) \<le> lev (rev xs) (rev ys)"
    by (rule lev_le_edits [OF edits_rev [OF edits_lev]])
  then show "lev xs ys \<le> lev (rev xs) (rev ys)" by simp
qed

lemma lev_snoc:
  "lev (xs @ [x]) (ys @ [y]) =
     (if x = y then lev xs ys
      else 1 + min (lev xs ys) (min (lev (xs @ [x]) ys) (lev xs (ys @ [y]))))"
proof -
  have "lev (xs @ [x]) (ys @ [y]) = lev (x # rev xs) (y # rev ys)"
    using lev_rev [of "xs @ [x]" "ys @ [y]"] by simp
  moreover have "lev (x # rev xs) (rev ys) = lev (xs @ [x]) ys"
    using lev_rev [of "xs @ [x]" ys] by simp
  moreover have "lev (rev xs) (y # rev ys) = lev xs (ys @ [y])"
    using lev_rev [of xs "ys @ [y]"] by simp
  ultimately show ?thesis by (simp add: lev_rev)
qed




section \<open>The loops compute the recurrence\<close>

lemma init_rows_eq:
  "length m = i \<Longrightarrow> i \<le> Suc n \<Longrightarrow>
   init_rows i n m = Some (m @ map (\<lambda>k. [k]) [i..<Suc n])"
proof (induction i n m rule: init_rows.induct)
  case (1 i n m)
  show ?case
  proof (cases "i \<le> n")
    case True
    have s: "js_set m i [i] = Some (m @ [[i]])"
      using 1(2) by (simp add: js_set_def)
    have "init_rows (Suc i) n (m @ [[i]]) = Some ((m @ [[i]]) @ map (\<lambda>k. [k]) [Suc i..<Suc n])"
      using 1(1) [OF True s] 1(2) True by simp
    moreover have "[i..<Suc n] = i # [Suc i..<Suc n]"
      using True by (simp add: upt_conv_Cons)
    ultimately show ?thesis
      using True s by (subst init_rows.simps) simp
  next
    case False
    with 1(3) have "i = Suc n" by simp
    then show ?thesis by (subst init_rows.simps) simp
  qed
qed

lemma init_cols_eq:
  "m \<noteq> [] \<Longrightarrow> m ! 0 = [0..<j] \<Longrightarrow> 0 < j \<Longrightarrow> j \<le> Suc n \<Longrightarrow>
   init_cols j n m = Some (m[0 := [0..<Suc n]])"
proof (induction j n m rule: init_cols.induct)
  case (1 j n m)
  show ?case
  proof (cases "j \<le> n")
    case True
    have s: "set_cell m 0 j j = Some (m[0 := [0..<Suc j]])"
      using 1(2,3) by (simp add: set_cell_def js_get_def js_set_def)
    have "init_cols (Suc j) n (m[0 := [0..<Suc j]]) = Some ((m[0 := [0..<Suc j]])[0 := [0..<Suc n]])"
      using 1(1) [OF True s] 1(2) True by simp
    then show ?thesis
      using True s by (subst init_cols.simps) simp
  next
    case False
    with 1(5) have "j = Suc n" by simp
    moreover have "m[0 := m ! 0] = m" by simp
    ultimately show ?thesis
      using 1(3) by (subst init_cols.simps) simp
  qed
qed

lemma init_cols_start:
  assumes "m \<noteq> []" and "m ! 0 = [0]"
  shows "init_cols 0 n m = Some (m[0 := [0..<Suc n]])"
proof -
  have s: "set_cell m 0 0 0 = Some m"
    using assms by (simp add: set_cell_def js_get_def js_set_def list_update_same_conv)
  have "init_cols (Suc 0) n m = Some (m[0 := [0..<Suc n]])"
    using assms by (intro init_cols_eq) simp_all
  then show ?thesis
    using s by (subst init_cols.simps) simp
qed

lemma length_dist_row [simp]: "length (dist_row str1 str2 i j) = j"
  by (simp add: dist_row_def)

lemma nth_dist_row [simp]:
  "k < j \<Longrightarrow> dist_row str1 str2 i j ! k = lev (take i str2) (take k str1)"
  by (simp add: dist_row_def)

lemma dist_row_Suc:
  "dist_row str1 str2 i (Suc j) = dist_row str1 str2 i j @ [lev (take i str2) (take j str1)]"
  by (simp add: dist_row_def)

lemma lev_take_Suc:
  assumes "i < length b" and "j < length a"
  shows "lev (take (Suc i) b) (take (Suc j) a) =
     (if b ! i = a ! j then lev (take i b) (take j a)
      else 1 + min (lev (take i b) (take j a))
                 (min (lev (take (Suc i) b) (take j a)) (lev (take i b) (take (Suc j) a))))"
  using assms lev_snoc [of "take i b" "b ! i" "take j a" "a ! j"]
  by (simp add: take_Suc_conv_app_nth)

lemma cell_value_eq:
  assumes "0 < i" "i \<le> length str2" "0 < j" "j \<le> length str1" "i < length m"
    and "m ! (i - 1) = dist_row str1 str2 (i - 1) (Suc (length str1))"
    and "m ! i = dist_row str1 str2 i j"
  shows "cell_value str1 str2 i j m = Some (lev (take i str2) (take j str1))"
proof -
  obtain i' j' where ij: "i = Suc i'" "j = Suc j'"
    using assms(1,3) by (metis Suc_pred)
  have d: "get_cell m i' j' = Some (lev (take i' str2) (take j' str1))"
    using assms ij by (simp add: get_cell_def js_get_def)
  have l: "get_cell m i j' = Some (lev (take i str2) (take j' str1))"
    using assms ij by (simp add: get_cell_def js_get_def)
  have u: "get_cell m i' j = Some (lev (take i' str2) (take j str1))"
    using assms ij by (simp add: get_cell_def js_get_def)
  have c: "charAt str2 i' = charAt str1 j' \<longleftrightarrow> str2 ! i' = str1 ! j'"
    using assms ij by (simp add: charAt_def)
  have "lev (take (Suc i') str2) (take (Suc j') str1) =
     (if str2 ! i' = str1 ! j' then lev (take i' str2) (take j' str1)
      else 1 + min (lev (take i' str2) (take j' str1))
                 (min (lev (take (Suc i') str2) (take j' str1))
                      (lev (take i' str2) (take (Suc j') str1))))"
    using assms ij by (intro lev_take_Suc) simp_all
  then show ?thesis
    using d l u c ij by (simp add: cell_value_def)
qed

lemma fill_row_eq:
  "0 < i \<Longrightarrow> i \<le> length str2 \<Longrightarrow> 0 < j \<Longrightarrow> j \<le> Suc (length str1) \<Longrightarrow> i < length m \<Longrightarrow>
   m ! (i - 1) = dist_row str1 str2 (i - 1) (Suc (length str1)) \<Longrightarrow>
   m ! i = dist_row str1 str2 i j \<Longrightarrow>
   fill_row str1 str2 i j m = Some (m[i := dist_row str1 str2 i (Suc (length str1))])"
proof (induction str1 str2 i j m rule: fill_row.induct)
  case (1 str1 str2 i j m)
  show ?case
  proof (cases "j \<le> length str1")
    case True
    have v: "cell_value str1 str2 i j m = Some (lev (take i str2) (take j str1))"
      using 1 True by (intro cell_value_eq) simp_all
    have s: "set_cell m i j (lev (take i str2) (take j str1))
               = Some (m[i := dist_row str1 str2 i (Suc j)])"
      using 1(6,8) by (simp add: set_cell_def js_get_def js_set_def dist_row_Suc)
    have "fill_row str1 str2 i (Suc j) (m[i := dist_row str1 str2 i (Suc j)])
            = Some ((m[i := dist_row str1 str2 i (Suc j)])[i := dist_row str1 str2 i (Suc (length str1))])"
      using 1(1) [OF True v s] 1(2-) True by simp
    then show ?thesis
      using True v s by (subst fill_row.simps) simp
  next
    case False
    with 1(5) have "j = Suc (length str1)" by simp
    moreover have "m[i := m ! i] = m" by simp
    ultimately show ?thesis
      using 1(8) by (subst fill_row.simps) simp
  qed
qed

lemma dist_matrix_step:
  assumes "0 < i" "i \<le> length str2"
  shows "(dist_matrix str1 str2 i)[i := dist_row str1 str2 i (Suc (length str1))]
           = dist_matrix str1 str2 (Suc i)"
  using assms
  by (intro nth_equalityI) (auto simp: dist_matrix_def nth_list_update less_Suc_eq simp del: upt_Suc)

lemma fill_rows_eq:
  "0 < i \<Longrightarrow> i \<le> Suc (length str2) \<Longrightarrow>
   fill_rows str1 str2 i (dist_matrix str1 str2 i)
     = Some (dist_matrix str1 str2 (Suc (length str2)))"
proof (induction "Suc (length str2) - i" arbitrary: i)
  case 0
  then have "i = Suc (length str2)" by simp
  then show ?case by (subst fill_rows.simps) simp
next
  case (Suc d)
  then have le: "i \<le> length str2" by simp
  let ?m = "dist_matrix str1 str2 i"
  have "dist_row str1 str2 i 1 = [i]"
    using le by (simp add: dist_row_def)
  then have r: "?m ! i = dist_row str1 str2 i 1"
    using le by (simp add: dist_matrix_def del: upt_Suc)
  have p: "?m ! (i - 1) = dist_row str1 str2 (i - 1) (Suc (length str1))"
    using le Suc(3) by (simp add: dist_matrix_def del: upt_Suc)
  have "fill_row str1 str2 i 1 ?m = Some (?m[i := dist_row str1 str2 i (Suc (length str1))])"
    using le Suc(3) r p by (intro fill_row_eq) (simp_all add: dist_matrix_def)
  then have f: "fill_row str1 str2 i 1 ?m = Some (dist_matrix str1 str2 (Suc i))"
    using dist_matrix_step [OF Suc(3) le] by simp
  have "fill_rows str1 str2 (Suc i) (dist_matrix str1 str2 (Suc i))
          = Some (dist_matrix str1 str2 (Suc (length str2)))"
    using Suc(1) [of "Suc i"] Suc(2) le by simp
  then show ?case
    using le f by (subst fill_rows.simps) simp
qed

lemma init_matrix_eq:
  "(map (\<lambda>k. [k]) [0..<Suc n2])[0 := [0..<Suc (length str1)]] = dist_matrix str1 str2 1"
  if "n2 = length str2"
  using that
  by (intro nth_equalityI)
     (auto simp: dist_matrix_def dist_row_def nth_list_update map_nth simp del: upt_Suc
           intro!: nth_equalityI)

lemma levenshteinDistance_lev: "levenshteinDistance str1 str2 = Some (lev str1 str2)"
proof -
  have 1: "init_rows 0 (length str2) [] = Some (map (\<lambda>k. [k]) [0..<Suc (length str2)])"
    using init_rows_eq [of "[]" 0 "length str2"] by simp
  have 2: "init_cols 0 (length str1) (map (\<lambda>k. [k]) [0..<Suc (length str2)])
             = Some (dist_matrix str1 str2 1)"
    using init_cols_start [of "map (\<lambda>k. [k]) [0..<Suc (length str2)]" "length str1"]
      init_matrix_eq [of "length str2" str2 str1]
    by (simp add: upt_conv_Cons del: upt_Suc)
  have 3: "fill_rows str1 str2 1 (dist_matrix str1 str2 1)
             = Some (dist_matrix str1 str2 (Suc (length str2)))"
    by (rule fill_rows_eq) simp_all
  have 4: "get_cell (dist_matrix str1 str2 (Suc (length str2))) (length str2) (length str1)
             = Some (lev str2 str1)"
    by (simp add: get_cell_def js_get_def dist_matrix_def del: upt_Suc)
  show ?thesis
    using 1 2 3 4 by (simp add: levenshteinDistance_def lev_sym)
qed


lemma kitten_sitting: "levenshteinDistance ''kitten'' ''sitting'' = Some 3"
  by code_simp

text \<open>
  C3: \<open>levenshteinDistance\<close> returns, for every two strings, the value of the reference
  recurrence (first row and column \<open>0..len\<close>, the diagonal on equal characters, else one
  more than the least of left, up and diagonal), which is the Levenshtein distance: that
  many insertions, deletions and substitutions turn the one string into the other, and no
  fewer do. The distance of "kitten" and "sitting" is 3.
\<close>

theorem levenshteinDistance_correct:
  "levenshteinDistance a b = Some (lev a b) \<and>
   edits (lev a b) a b \<and>
   (\<forall>n. edits n a b \<longrightarrow> lev a b \<le> n) \<and>
   levenshteinDistance ''kitten'' ''sitting'' = Some 3"
  using levenshteinDistance_lev edits_lev lev_le_edits kitten_sitting by blast

theorem levenshteinDistance_correct_witness:
  "edits 1 ''ab'' ''b'' \<and> lev ''ab'' ''b'' \<le> 1 \<and> levenshteinDistance ''ab'' ''b'' = Some 1"
proof -
  have "edits 0 ''b'' ''b''"
    by (intro edits.intros)
  then have h: "edits 1 ''ab'' ''b''"
    using edits_delete [of 0 "''b''" "''b''" "CHR ''a''"] by simp
  have "lev ''ab'' ''b'' = 1"
    by simp
  then show ?thesis
    using h levenshteinDistance_correct [of "''ab''" "''b''"] by simp
qed



section \<open>Substrings\<close>

lemma starts_with_iff: "starts_with s pat \<longleftrightarrow> prefix pat s"
  by (induction s pat rule: starts_with.induct) auto

lemma js_includes_iff: "js_includes s pat \<longleftrightarrow> sublist pat s"
  by (induction s) (simp_all add: starts_with_iff sublist_Cons_right)

lemma js_includes_empty [simp]: "js_includes s []"
  by (simp add: js_includes_iff)

lemma toLowerCase_append [simp]: "toLowerCase (a @ b) = toLowerCase a @ toLowerCase b"
  by (simp add: toLowerCase_def)

lemma js_includes_lower_mono:
  "sublist a b \<Longrightarrow> sublist (toLowerCase a) (toLowerCase b)"
  unfolding sublist_def by (metis toLowerCase_append)

lemma js_join_member: "s \<in> set xs \<Longrightarrow> sublist s (js_join sep xs)"
proof (induction sep xs rule: js_join.induct)
  case (1 sep)
  then show ?case by simp
next
  case (2 sep x)
  then show ?case by simp
next
  case (3 sep x y ys)
  show ?case
  proof (cases "s = x")
    case True
    then show ?thesis by (simp add: sublist_append_rightI)
  next
    case False
    with 3 have "sublist s (js_join sep (y # ys))" by simp
    then have "sublist s ((x @ sep) @ js_join sep (y # ys))"
      unfolding sublist_def by (metis append.assoc)
    then show ?thesis by simp
  qed
qed

lemma string_values_member:
  "map_of e k = Some (JStr s) \<Longrightarrow> s \<in> set (string_values e)"
proof (induction e rule: string_values.induct)
  case 1
  then show ?case by simp
next
  case (2 k' s' ps)
  then show ?case by (auto split: if_splits)
qed (auto split: if_splits)

section \<open>Query enhancement appends the synonyms\<close>

lemma fold_enhance_step:
  "fold (enhance_step query) ps acc =
     acc @ concat (map (\<lambda>(key, syns).
             if js_includes (toLowerCase query) key then '' '' @ js_join '' '' syns else []) ps)"
  by (induction ps arbitrary: acc) (auto simp: enhance_step_def)

lemma synonyms_keys: "map fst synonyms = [''travel'', ''food'', ''hotel'', ''activity'']"
  by (simp add: synonyms_def)

lemma synonyms_keys_lower: "list_all (\<lambda>key. toLowerCase key = key) (map fst synonyms)"
  by code_simp

text \<open>
  C5: \<open>enhanceQuery\<close> returns the query as it was given, followed, for each of the
  keys travel, food, hotel, activity in this order that occurs in the lowercased query,
  by a space and the synonyms of the key joined by spaces. It accepts every string, and
  returns the query unchanged when no key occurs in it. The keys are their own lowercase
  forms.
\<close>

theorem enhanceQuery_appends:
  "enhanceQuery query =
     query @ concat (map (\<lambda>(key, syns).
               if js_includes (toLowerCase query) key then '' '' @ js_join '' '' syns else [])
             synonyms) \<and>
   map fst synonyms = [''travel'', ''food'', ''hotel'', ''activity''] \<and>
   list_all (\<lambda>key. toLowerCase key = key) (map fst synonyms) \<and>
   ((\<forall>key \<in> set (map fst synonyms). \<not> js_includes (toLowerCase query) key)
      \<longrightarrow> enhanceQuery query = query)"
proof -
  have 1: "enhanceQuery query =
     query @ concat (map (\<lambda>(key, syns).
               if js_includes (toLowerCase query) key then '' '' @ js_join '' '' syns else [])
             synonyms)"
    by (simp add: enhanceQuery_def fold_enhance_step)
  have 2: "enhanceQuery query = query"
    if "\<forall>key \<in> set (map fst synonyms). \<not> js_includes (toLowerCase query) key"
    using that unfolding 1 by (auto simp: synonyms_def)
  show ?thesis
    using 1 2 synonyms_keys synonyms_keys_lower by blast
qed

lemma paris_no_trigger:
  "\<forall>key \<in> set (map fst synonyms). \<not> js_includes (toLowerCase ''Paris'') key"
  by code_simp

theorem enhanceQuery_appends_witness:
  "list_all (\<lambda>key. \<not> js_includes (toLowerCase ''Paris'') key) (map fst synonyms) \<and>
   enhanceQuery ''Paris'' = ''Paris'' \<and>
   enhanceQuery ''Food and Hotel'' =
     ''Food and Hotel cuisine dining restaurant meal accommodation lodging stay''"
proof -
  have "enhanceQuery ''Food and Hotel'' =
     ''Food and Hotel cuisine dining restaurant meal accommodation lodging stay''"
    by code_simp
  moreover have "enhanceQuery ''Paris'' = ''Paris''"
    using paris_no_trigger enhanceQuery_appends [of "''Paris''"] by blast
  ultimately show ?thesis
    using paris_no_trigger by (simp only: list_all_iff)
qed

text \<open>
  C8, as amended: the enhancement of "Paris food tour" adds the synonyms of food only. Its
  terms are paris, food, tour, cuisine, dining, restaurant, meal: "travel" does not occur
  in the query, so trip, journey and vacation are not added, and tour is a term as a word
  of the query itself.
\<close>

theorem paris_food_tour_terms:
  "js_split CHR '' '' (toLowerCase (enhanceQuery ''Paris food tour'')) =
     [''paris'', ''food'', ''tour'', ''cuisine'', ''dining'', ''restaurant'', ''meal'']"
  by code_simp

text \<open>
  C8 as it is stated fails: the terms of "Paris food tour" do not include all the synonyms
  of food and of travel.
\<close>

theorem paris_food_tour_no_travel_synonyms:
  "\<not> set [''cuisine'', ''dining'', ''restaurant'', ''meal'', ''trip'', ''journey'', ''vacation'', ''tour'']
       \<subseteq> set (js_split CHR '' '' (toLowerCase (enhanceQuery ''Paris food tour'')))"
  by code_simp

section \<open>Similarity and fuzzy match\<close>

lemma calculateSimilarity_eq: "calculateSimilarity a b = Some (similarity_spec a b)"
proof -
  consider "length a > length b" | "length a = length b" | "length a < length b"
    by linarith
  then show ?thesis
  proof cases
    case 1
    then show ?thesis
      by (simp add: calculateSimilarity_def similarity_spec_def levenshteinDistance_lev
            diff_divide_distrib)
  next
    case 2
    then have "a = [] \<longleftrightarrow> b = []" by auto
    with 2 show ?thesis
      by (simp add: calculateSimilarity_def similarity_spec_def levenshteinDistance_lev
            diff_divide_distrib lev_sym [of b a])
  next
    case 3
    then show ?thesis
      by (simp add: calculateSimilarity_def similarity_spec_def levenshteinDistance_lev
            diff_divide_distrib)
  qed
qed

lemma similarity_spec_sym: "similarity_spec a b = similarity_spec b a"
  by (simp add: similarity_spec_def lev_sym [of a b])

lemma fuzzy_word_iff:
  "fuzzy_word term word \<longleftrightarrow>
     3 \<le> length term \<and> 3 \<le> length word \<and> 7 / 10 < similarity_spec term word"
  by (auto simp: fuzzy_word_def calculateSimilarity_eq)

text \<open>
  C4, as amended: \<open>fuzzyMatch term text\<close> is true exactly when some piece of the text
  between single space characters has, as the term has, at least 3 characters and a
  similarity to the term above 0.7. The similarity that \<open>calculateSimilarity\<close> returns
  is one minus the edit distance of the longer and the shorter string over the length of
  the longer; it is symmetric, and 1 for two empty strings. A term of fewer than 3
  characters never matches.
\<close>

theorem fuzzyMatch_words:
  "(fuzzyMatch term text \<longleftrightarrow>
      (\<exists>word \<in> set (js_split CHR '' '' text).
          3 \<le> length term \<and> 3 \<le> length word \<and> 7 / 10 < similarity_spec term word)) \<and>
   calculateSimilarity a b = Some (similarity_spec a b) \<and>
   similarity_spec a b = similarity_spec b a \<and>
   similarity_spec [] [] = 1 \<and>
   (length term < 3 \<longrightarrow> \<not> fuzzyMatch term text)"
proof -
  have 1: "fuzzyMatch term text \<longleftrightarrow>
      (\<exists>word \<in> set (js_split CHR '' '' text).
          3 \<le> length term \<and> 3 \<le> length word \<and> 7 / 10 < similarity_spec term word)"
    by (simp add: fuzzyMatch_def list_ex_iff fuzzy_word_iff)
  have 2: "similarity_spec [] [] = 1"
    by (simp add: similarity_spec_def)
  have 3: "length term < 3 \<longrightarrow> \<not> fuzzyMatch term text"
    unfolding 1 by simp
  show ?thesis
    using 1 2 3 calculateSimilarity_eq similarity_spec_sym by blast
qed

theorem fuzzyMatch_words_witness:
  "length ''to'' < 3 \<and> \<not> fuzzyMatch ''to'' ''to do'' \<and>
   ''tokio'' \<in> set (js_split CHR '' '' ''old tokio'') \<and> fuzzyMatch ''tokyo'' ''old tokio''"
proof -
  have m: "''tokio'' \<in> set (js_split CHR '' '' ''old tokio'')"
    by code_simp
  have s: "7 / 10 < similarity_spec ''tokyo'' ''tokio''"
    by code_simp
  have "\<exists>word \<in> set (js_split CHR '' '' ''old tokio'').
          3 \<le> length ''tokyo'' \<and> 3 \<le> length word \<and> 7 / 10 < similarity_spec ''tokyo'' word"
    using m s by (intro bexI [of _ "''tokio''"]) simp_all
  then have "fuzzyMatch ''tokyo'' ''old tokio''"
    using fuzzyMatch_words [of "''tokyo''" "''old tokio''"] by blast
  moreover have "\<not> fuzzyMatch ''to'' ''to do''"
    using fuzzyMatch_words [of "''to''" "''to do''"] by simp
  ultimately show ?thesis using m by simp
qed

text \<open>
  C4 as it is stated fails on whitespace other than the space: in a text of two lines the
  word "def" of the second line is a word of the text split on whitespace and equals the
  term, and \<open>fuzzyMatch\<close> is false, since \<open>split(' ')\<close> leaves the two lines in one
  piece.
\<close>

theorem fuzzyMatch_newline_counterexample:
  "\<not> fuzzyMatch ''def'' (''abc'' @ [CHR 0x0A] @ ''def'') \<and>
   fuzzyMatch_spec ''def'' (''abc'' @ [CHR 0x0A] @ ''def'')"
  by code_simp




section \<open>Sorting by score, and slicing\<close>

lemma insert_by_score: "insert_by by_score x ys = insort_key (\<lambda>h. - score h) x ys"
  by (induction ys) (simp_all add: by_score_def)

lemma js_sort_by_score: "js_sort by_score xs = sort_key (\<lambda>h. - score h) xs"
  by (induction xs) (simp_all add: js_sort_def sort_key_def insert_by_score)

lemma slice0_take: "slice0 xs n = take (length (slice0 xs n)) xs"
  by (simp add: slice0_def Let_def min_def)

lemma slice0_zero: "to_integer n = 0 \<Longrightarrow> slice0 xs n = []"
  by (simp add: slice0_def)

lemma slice0_length: "0 \<le> r \<Longrightarrow> of_nat (length (slice0 xs (Num r))) \<le> r"
proof -
  assume r: "0 \<le> r"
  then have "0 \<le> \<lfloor>r\<rfloor>" by simp
  have "length (slice0 xs (Num r)) \<le> nat \<lfloor>r\<rfloor>"
    using r by (simp add: slice0_def Let_def)
  then have "int (length (slice0 xs (Num r))) \<le> \<lfloor>r\<rfloor>"
    using \<open>0 \<le> \<lfloor>r\<rfloor>\<close> by linarith
  then have "of_int (int (length (slice0 xs (Num r)))) \<le> (of_int \<lfloor>r\<rfloor> :: rat)"
    by (simp only: of_int_le_iff)
  also have "\<dots> \<le> r" by simp
  finally show ?thesis by simp
qed

lemma slice0_negative:
  "0 < k \<Longrightarrow> slice0 xs (Num (- of_nat k)) = take (length xs - k) xs"
proof -
  assume k: "0 < k"
  have c: "\<lceil>- rat_of_nat k\<rceil> = - int k"
    by (simp add: ceiling_minus)
  have "nat (int (length xs) - int k) = length xs - k"
    by simp
  then show ?thesis
    using k by (simp add: slice0_def Let_def c max_def)
qed

lemma filter_score_positive:
  assumes "0 < k"
  shows "filter (\<lambda>x. score x = k) (filter (\<lambda>h. 0 < score h) cands)
           = filter (\<lambda>x. score x = k) cands"
  using assms by (induction cands) simp_all

lemma filter_score_sorted:
  "filter (\<lambda>x. score x = k) (sort_key (\<lambda>h. - score h) xs) = filter (\<lambda>x. score x = k) xs"
proof -
  have "filter (\<lambda>x. - score x = - k) (sort_key (\<lambda>h. - score h) xs)
          = filter (\<lambda>x. - score x = - k) xs"
    by (rule sort_key_stable)
  then show ?thesis by simp
qed

lemma ranked_from_take:
  "ranked_from cands (take m (sort_key (\<lambda>h. - score h) (filter (\<lambda>h. 0 < score h) cands)))"
proof -
  let ?S = "sort_key (\<lambda>h. - score h) (filter (\<lambda>h. 0 < score h) cands)"
  let ?out = "take m ?S"
  have sub: "set ?out \<subseteq> set ?S"
    by (rule set_take_subset)
  have pos: "0 < score h" if "h \<in> set ?out" for h
    using sub that by auto
  have "sorted (map (\<lambda>h. - score h) ?S)"
    by (rule sorted_sort_key)
  then have "sorted_wrt (\<lambda>a b. score b \<le> score a) ?S"
    by (simp add: sorted_map)
  then have ord: "sorted_wrt (\<lambda>a b. score b \<le> score a) ?out"
    by (rule sorted_wrt_take)
  have stab: "prefix (filter (\<lambda>x. score x = score h) ?out) (filter (\<lambda>x. score x = score h) cands)"
    if "h \<in> set ?out" for h
  proof -
    have "prefix (filter (\<lambda>x. score x = score h) ?out) (filter (\<lambda>x. score x = score h) ?S)"
      by (intro filter_mono_prefix take_is_prefix)
    then show ?thesis
      by (simp only: filter_score_sorted filter_score_positive [OF pos [OF that]])
  qed
  show ?thesis
    unfolding ranked_from_def list_all_iff using pos ord stab by blast
qed

lemma ranked_from_ranked: "ranked_from cands (ranked cands n)"
proof -
  have "ranked cands n = take (length (ranked cands n))
          (sort_key (\<lambda>h. - score h) (filter (\<lambda>h. 0 < score h) cands))"
    unfolding ranked_def js_sort_by_score by (rule slice0_take)
  then show ?thesis
    using ranked_from_take [of cands "length (ranked cands n)"] by simp
qed

lemma at_most_ranked: "0 \<le> r \<Longrightarrow> at_most (Num r) (ranked cands (Num r))"
  by (simp add: ranked_def slice0_length)

lemma ranked_zero: "to_integer n = 0 \<Longrightarrow> ranked cands n = []"
  by (simp add: ranked_def slice0_zero)




section \<open>What the searches return\<close>

lemma map_throwing_Inr:
  "map_throwing f xs = Inr ys \<Longrightarrow> (\<And>x y. f x = Inr y \<Longrightarrow> g y = x) \<Longrightarrow> map g ys = xs"
proof (induction xs arbitrary: ys)
  case Nil
  then show ?case by simp
next
  case (Cons x xs)
  from Cons.prems(1) obtain y zs where y: "f x = Inr y" and zs: "map_throwing f xs = Inr zs"
    and ys: "ys = y # zs"
    by (auto split: sum.splits)
  have "map g zs = xs"
    using Cons.IH [OF zs] Cons.prems(2) by blast
  moreover have "g y = x"
    using Cons.prems(2) [OF y] .
  ultimately show ?case using ys by simp
qed

lemma map_throwing_total:
  "(\<And>x. x \<in> set xs \<Longrightarrow> f x = Inr (g x)) \<Longrightarrow> map_throwing f xs = Inr (map g xs)"
  by (induction xs) simp_all

lemma score_plain_entry: "score_plain ts e = Inr y \<Longrightarrow> entry y = e"
  unfolding score_plain_def by (auto split: sum.splits)

lemma score_intelligent_entry: "score_intelligent q ts e = Inr y \<Longrightarrow> entry y = e"
  unfolding score_intelligent_def Let_def by (auto split: sum.splits)

lemma searchContent_body_ranked:
  assumes "query \<noteq> []" and "searchContent_body entries query n = Inr result"
  shows "\<exists>cands. map entry cands = entries \<and> result = map Annotated (ranked cands n)"
proof -
  let ?f = "score_plain (js_split CHR '' '' (toLowerCase query))"
  have "searchContent_body entries query n =
          (case map_throwing ?f entries of
             Inl err \<Rightarrow> Inl err
           | Inr scoredEntries \<Rightarrow> Inr (map Annotated (ranked scoredEntries n)))"
    using assms(1) by (simp add: searchContent_body_def)
  with assms(2) obtain cands where c: "map_throwing ?f entries = Inr cands"
    and r: "result = map Annotated (ranked cands n)"
    by (cases "map_throwing ?f entries") auto
  have "map entry cands = entries"
    using c by (rule map_throwing_Inr) (rule score_plain_entry)
  with r show ?thesis by blast
qed

lemma intelligentSearch_body_ranked:
  assumes "query \<noteq> []" and "intelligentSearch_body entries query n = Inr result"
  shows "\<exists>cands. map entry cands = entries \<and> result = map Annotated (ranked cands n)"
proof (cases "entries = []")
  case True
  then have "result = []"
    using assms by (simp add: intelligentSearch_body_def slice0_def)
  moreover have "ranked [] n = []"
    by (simp add: ranked_def slice0_def js_sort_def)
  ultimately show ?thesis
    using True by (intro exI [of _ "[]"]) simp
next
  case False
  let ?f = "score_intelligent query (js_split CHR '' '' (toLowerCase (enhanceQuery query)))"
  have "intelligentSearch_body entries query n =
          (case map_throwing ?f entries of
             Inl err \<Rightarrow> Inl err
           | Inr scoredEntries \<Rightarrow> Inr (map Annotated (ranked scoredEntries n)))"
    using assms(1) False by (simp add: intelligentSearch_body_def)
  with assms(2) obtain cands where c: "map_throwing ?f entries = Inr cands"
    and r: "result = map Annotated (ranked cands n)"
    by (cases "map_throwing ?f entries") auto
  have "map entry cands = entries"
    using c by (rule map_throwing_Inr) (rule score_intelligent_entry)
  with r show ?thesis by blast
qed

lemma getAllEntries_fetched:
  "getAllEntries ct 100 w =
     ((case store w ct 100 (served w) of
         Fails err \<Rightarrow> Inl (Error (''Failed to fetch entries: '' @ upstream_text err))
       | Responds entries \<Rightarrow> Inr (case entries of None \<Rightarrow> [] | Some es \<Rightarrow> es)),
      w\<lparr>served := Suc (served w)\<rparr>)"
  by (simp add: getAllEntries_def Let_def split: http_outcome.splits)

lemma searchContent_fetched:
  assumes "fetched_at w ct (served w) = Some entries"
  shows "searchContent query ct n w =
           ((case searchContent_body entries query n of
               Inl err \<Rightarrow> Inl (search_failure err)
             | Inr result \<Rightarrow> Inr result),
            w\<lparr>served := Suc (served w)\<rparr>)"
  using assms
  by (cases "store w ct 100 (served w)")
     (simp_all add: searchContent_def getAllEntries_fetched fetched_at_def split: sum.splits)

lemma searchContent_failed:
  assumes "store w ct 100 (served w) = Fails err"
  shows "searchContent query ct n w =
           (Inl (Error (''Failed to search content: Failed to fetch entries: '' @ upstream_text err)),
            w\<lparr>served := Suc (served w)\<rparr>)"
  using assms by (simp add: searchContent_def getAllEntries_fetched search_failure_def)

lemma intelligentSearch_fetched:
  assumes "fetched_at w ct (served w) = Some entries"
  shows "intelligentSearch query ct n w =
           (case intelligentSearch_body entries query n of
              Inl err \<Rightarrow> searchContent query ct n (w\<lparr>served := Suc (served w)\<rparr>)
            | Inr result \<Rightarrow> (Inr result, w\<lparr>served := Suc (served w)\<rparr>))"
  using assms
  by (cases "store w ct 100 (served w)")
     (simp_all add: intelligentSearch_def getAllEntries_fetched fetched_at_def split: sum.splits)

lemma intelligentSearch_failed:
  assumes "store w ct 100 (served w) = Fails err"
  shows "intelligentSearch query ct n w = searchContent query ct n (w\<lparr>served := Suc (served w)\<rparr>)"
  using assms by (simp add: intelligentSearch_def getAllEntries_fetched)

lemma fetched_at_cases:
  "(\<exists>err. store w ct 100 k = Fails err \<and> fetched_at w ct k = None) \<or>
   (\<exists>entries. fetched_at w ct k = Some entries)"
  by (cases "store w ct 100 k") (simp_all add: fetched_at_def)

lemma searchContent_Inr:
  assumes "searchContent query ct n w = (Inr result, w')"
  shows "\<exists>entries. fetched_at w ct (served w) = Some entries \<and>
           searchContent_body entries query n = Inr result"
proof -
  from fetched_at_cases [of w ct "served w"] show ?thesis
  proof (elim disjE exE conjE)
    fix err assume "store w ct 100 (served w) = Fails err"
    from searchContent_failed [OF this, of query n] assms show ?thesis by simp
  next
    fix entries assume f: "fetched_at w ct (served w) = Some entries"
    from searchContent_fetched [OF f, of query n] assms
    have "searchContent_body entries query n = Inr result"
      by (cases "searchContent_body entries query n") simp_all
    with f show ?thesis by blast
  qed
qed

lemma intelligentSearch_Inr:
  assumes "intelligentSearch query ct n w = (Inr result, w')"
  shows "(\<exists>entries. fetched_at w ct (served w) = Some entries \<and>
            intelligentSearch_body entries query n = Inr result) \<or>
         searchContent query ct n (w\<lparr>served := Suc (served w)\<rparr>) = (Inr result, w')"
proof -
  from fetched_at_cases [of w ct "served w"] show ?thesis
  proof (elim disjE exE conjE)
    fix err assume "store w ct 100 (served w) = Fails err"
    from intelligentSearch_failed [OF this, of query n] assms show ?thesis by simp
  next
    fix entries assume f: "fetched_at w ct (served w) = Some entries"
    show ?thesis
    proof (cases "intelligentSearch_body entries query n")
      case (Inl err)
      with intelligentSearch_fetched [OF f, of query n] assms show ?thesis by simp
    next
      case (Inr r)
      with intelligentSearch_fetched [OF f, of query n] assms have "r = result" by simp
      with Inr f show ?thesis by blast
    qed
  qed
qed




section \<open>The ranked output\<close>

lemma fetched_at_served [simp]:
  "fetched_at (w\<lparr>served := k\<rparr>) ct j = fetched_at w ct j"
  by (simp add: fetched_at_def)

text \<open>
  C1, as amended: for a query that is not empty, what \<open>searchContent\<close> and
  \<open>intelligentSearch\<close> return is a list of scored copies of entries of one fetch (for
  \<open>intelligentSearch\<close> its own fetch or, after a fallback, the next one), every one with
  a score above 0, in an order in which the scores do not increase and in which entries of
  the same score keep their fetch order; and when \<open>maxResults\<close> is a number that is not
  negative, the list is no longer than \<open>maxResults\<close>.
\<close>

theorem ranked_output:
  assumes "query \<noteq> []"
  shows "(searchContent query ct n w = (Inr result, w') \<longrightarrow>
            (\<exists>cands out.
                fetched_at w ct (served w) = Some (map entry cands) \<and>
                result = map Annotated out \<and> ranked_from cands out \<and>
                (non_negative n \<longrightarrow> at_most n out))) \<and>
         (intelligentSearch query ct n w = (Inr result', w'') \<longrightarrow>
            (\<exists>k cands out.
                (k = served w \<or> k = Suc (served w)) \<and>
                fetched_at w ct k = Some (map entry cands) \<and>
                result' = map Annotated out \<and> ranked_from cands out \<and>
                (non_negative n \<longrightarrow> at_most n out)))"
proof -
  have body: "\<exists>cands out.
                entries = map entry cands \<and>
                res = map Annotated out \<and> ranked_from cands out \<and>
                (non_negative n \<longrightarrow> at_most n out)"
    if "\<exists>cands. map entry cands = entries \<and> res = map Annotated (ranked cands n)"
    for entries res
  proof -
    from that obtain cands where c: "map entry cands = entries"
      and r: "res = map Annotated (ranked cands n)" by blast
    have "ranked_from cands (ranked cands n)"
      by (rule ranked_from_ranked)
    moreover have "non_negative n \<longrightarrow> at_most n (ranked cands n)"
      using at_most_ranked by (cases n) simp_all
    ultimately show ?thesis using c r by blast
  qed
  have plain: "\<exists>cands out.
                fetched_at v ct (served v) = Some (map entry cands) \<and>
                res = map Annotated out \<and> ranked_from cands out \<and>
                (non_negative n \<longrightarrow> at_most n out)"
    if "searchContent query ct n v = (Inr res, v')" for v v' res
  proof -
    from searchContent_Inr [OF that] obtain entries
      where f: "fetched_at v ct (served v) = Some entries"
        and b: "searchContent_body entries query n = Inr res" by blast
    from body [OF searchContent_body_ranked [OF assms b]] f show ?thesis by blast
  qed
  have smart: "\<exists>k cands out.
                (k = served w \<or> k = Suc (served w)) \<and>
                fetched_at w ct k = Some (map entry cands) \<and>
                result' = map Annotated out \<and> ranked_from cands out \<and>
                (non_negative n \<longrightarrow> at_most n out)"
    if i: "intelligentSearch query ct n w = (Inr result', w'')"
  proof -
    from intelligentSearch_Inr [OF i] show ?thesis
    proof
      assume "\<exists>entries. fetched_at w ct (served w) = Some entries \<and>
                intelligentSearch_body entries query n = Inr result'"
      then obtain entries where f: "fetched_at w ct (served w) = Some entries"
        and b: "intelligentSearch_body entries query n = Inr result'" by blast
      from body [OF intelligentSearch_body_ranked [OF assms b]] f show ?thesis by blast
    next
      assume "searchContent query ct n (w\<lparr>served := Suc (served w)\<rparr>) = (Inr result', w'')"
      from plain [OF this] show ?thesis by auto
    qed
  qed
  from plain smart show ?thesis by blast
qed

lemma sample_paris_two:
  "fst (searchContent ''paris'' ''tours'' (Num 2) sample_store) =
     Inr [Annotated \<lparr>entry = paris_getaway, score = 6, relevance = None\<rparr>,
          Annotated \<lparr>entry = paris_by_night, score = 6, relevance = None\<rparr>]"
  by code_simp

theorem ranked_output_witness:
  "''paris'' \<noteq> [] \<and>
   fst (searchContent ''paris'' ''tours'' (Num 2) sample_store) =
     Inr [Annotated \<lparr>entry = paris_getaway, score = 6, relevance = None\<rparr>,
          Annotated \<lparr>entry = paris_by_night, score = 6, relevance = None\<rparr>] \<and>
   (\<exists>cands out.
       fetched_at sample_store ''tours'' (served sample_store) = Some (map entry cands) \<and>
       [Annotated \<lparr>entry = paris_getaway, score = 6, relevance = None\<rparr>,
        Annotated \<lparr>entry = paris_by_night, score = 6, relevance = None\<rparr>] = map Annotated out \<and>
       ranked_from cands out \<and> at_most (Num 2) out)"
proof -
  let ?r = "[Annotated \<lparr>entry = paris_getaway, score = 6, relevance = None\<rparr>,
             Annotated \<lparr>entry = paris_by_night, score = 6, relevance = None\<rparr>]"
  have q: "''paris'' \<noteq> []" by simp
  have "searchContent ''paris'' ''tours'' (Num 2) sample_store =
          (Inr ?r, snd (searchContent ''paris'' ''tours'' (Num 2) sample_store))"
    using sample_paris_two by (simp add: prod_eq_iff)
  with ranked_output [OF q, of "''tours''" "Num 2" sample_store ?r]
  have "\<exists>cands out.
       fetched_at sample_store ''tours'' (served sample_store) = Some (map entry cands) \<and>
       ?r = map Annotated out \<and> ranked_from cands out \<and>
       (non_negative (Num 2) \<longrightarrow> at_most (Num 2) out)"
    by blast
  then have "\<exists>cands out.
       fetched_at sample_store ''tours'' (served sample_store) = Some (map entry cands) \<and>
       ?r = map Annotated out \<and> ranked_from cands out \<and> at_most (Num 2) out"
    by simp
  with q sample_paris_two show ?thesis by blast
qed

text \<open>
  C1 as it is stated fails for a negative \<open>maxResults\<close>: \<open>slice(0, -1)\<close> drops the last
  of the two entries that match "paris", and the one that is left is more than -1 entries.
\<close>

theorem negative_maxResults_length_counterexample:
  "fst (searchContent ''paris'' ''tours'' (Num (- 1)) sample_store) =
     Inr [Annotated \<lparr>entry = paris_getaway, score = 6, relevance = None\<rparr>] \<and>
   \<not> at_most (Num (- 1)) [Annotated \<lparr>entry = paris_getaway, score = 6, relevance = None\<rparr>]"
  by code_simp



section \<open>Results that are empty\<close>

lemma textual_js_or: "textual a \<Longrightarrow> textual b \<Longrightarrow> textual (js_or a b)"
  by (simp add: js_or_def)

lemma call_toLowerCase_textual:
  "textual (js_or v (JStr [])) \<Longrightarrow>
   call_toLowerCase (js_or v (JStr [])) = Inr (toLowerCase (text_of (js_or v (JStr []))))"
  by (cases v) (auto simp: js_or_def split: if_splits)

lemma scorable_title: "scorable e \<Longrightarrow> textual (title_value e)"
  by (simp add: scorable_def title_value_def textual_js_or)

lemma scorable_description_plain: "scorable e \<Longrightarrow> textual (description_plain e)"
  by (simp add: scorable_def description_plain_def textual_js_or)

lemma scorable_description_intelligent: "scorable e \<Longrightarrow> textual (description_intelligent e)"
  by (simp add: scorable_def description_intelligent_def textual_js_or)

lemma score_plain_textual:
  assumes "textual (title_value e)" and "textual (description_plain e)"
  shows "score_plain ts e =
     Inr \<lparr>entry = e,
          score = fold (plain_term (toLowerCase (text_of (title_value e)))
                          (toLowerCase (text_of (description_plain e))) (all_text e)) ts 0,
          relevance = None\<rparr>"
proof -
  have t: "call_toLowerCase (title_value e) = Inr (toLowerCase (text_of (title_value e)))"
    using assms(1) unfolding title_value_def by (rule call_toLowerCase_textual)
  have d: "call_toLowerCase (description_plain e) = Inr (toLowerCase (text_of (description_plain e)))"
    using assms(2) unfolding description_plain_def by (rule call_toLowerCase_textual)
  show ?thesis
    by (simp add: score_plain_def t d)
qed

lemma score_intelligent_textual:
  assumes "textual (title_value e)" and "textual (description_intelligent e)"
  shows "score_intelligent query ts e =
     (let title = toLowerCase (text_of (title_value e));
          description = toLowerCase (text_of (description_intelligent e));
          content = title @ '' '' @ description;
          total = fold (intelligent_term title description content) ts
                    (if js_includes content (toLowerCase query) then 10 else 0)
      in Inr \<lparr>entry = e, score = total,
              relevance = Some (of_int total / of_nat (max (length ts) 1))\<rparr>)"
proof -
  have t: "call_toLowerCase (title_value e) = Inr (toLowerCase (text_of (title_value e)))"
    using assms(1) unfolding title_value_def by (rule call_toLowerCase_textual)
  have d: "call_toLowerCase (description_intelligent e)
             = Inr (toLowerCase (text_of (description_intelligent e)))"
    using assms(2) unfolding description_intelligent_def by (rule call_toLowerCase_textual)
  show ?thesis
    by (simp add: score_intelligent_def t d Let_def)
qed

lemma searchContent_body_zero:
  assumes "to_integer n = 0" and "list_all scorable entries"
  shows "searchContent_body entries query n = Inr []"
proof (cases "query = []")
  case True
  then show ?thesis
    using assms(1) by (simp add: searchContent_body_def slice0_zero)
next
  case False
  let ?ts = "js_split CHR '' '' (toLowerCase query)"
  let ?g = "\<lambda>e. \<lparr>entry = e,
          score = fold (plain_term (toLowerCase (text_of (title_value e)))
                          (toLowerCase (text_of (description_plain e))) (all_text e)) ?ts 0,
          relevance = None\<rparr>"
  have "score_plain ?ts e = Inr (?g e)" if "e \<in> set entries" for e
  proof -
    from that assms(2) have "scorable e" by (simp add: list_all_iff)
    then show ?thesis
      by (intro score_plain_textual scorable_title scorable_description_plain)
  qed
  then have "map_throwing (score_plain ?ts) entries = Inr (map ?g entries)"
    by (rule map_throwing_total)
  then show ?thesis
    using False assms(1) by (simp add: searchContent_body_def ranked_zero)
qed

lemma intelligentSearch_body_zero:
  assumes "to_integer n = 0" and "list_all scorable entries"
  shows "intelligentSearch_body entries query n = Inr []"
proof (cases "query = [] \<or> entries = []")
  case True
  then show ?thesis
    using assms(1) by (auto simp: intelligentSearch_body_def slice0_zero)
next
  case False
  let ?ts = "js_split CHR '' '' (toLowerCase (enhanceQuery query))"
  have "\<exists>y. score_intelligent query ?ts e = Inr y" if "e \<in> set entries" for e
  proof -
    from that assms(2) have "scorable e" by (simp add: list_all_iff)
    then show ?thesis
      using score_intelligent_textual [OF scorable_title scorable_description_intelligent, of e query ?ts]
      by (simp add: Let_def)
  qed
  then obtain g where g: "\<And>e. e \<in> set entries \<Longrightarrow> score_intelligent query ?ts e = Inr (g e)"
    by metis
  have "map_throwing (score_intelligent query ?ts) entries = Inr (map g entries)"
    using g by (rule map_throwing_total)
  then show ?thesis
    using False assms(1) by (simp add: intelligentSearch_body_def ranked_zero)
qed

text \<open>
  C6, as amended: when \<open>maxResults\<close> is 0, or \<open>NaN\<close>, or any number that \<open>slice\<close>
  cuts off to 0, and the fetch succeeds with entries whose title and description fields
  are strings or falsy, \<open>searchContent\<close> and \<open>intelligentSearch\<close> return the empty list
  and no error. A negative whole \<open>maxResults\<close> makes \<open>slice\<close> return the list without
  that many of its last elements.
\<close>

theorem zero_maxResults_empty:
  assumes "to_integer n = 0"
    and "fetched_at w ct (served w) = Some entries"
    and "list_all scorable entries"
  shows "searchContent query ct n w = (Inr [], w\<lparr>served := Suc (served w)\<rparr>) \<and>
         intelligentSearch query ct n w = (Inr [], w\<lparr>served := Suc (served w)\<rparr>) \<and>
         to_integer NaN = 0 \<and> to_integer (Num 0) = 0 \<and>
         (0 < k \<longrightarrow> slice0 xs (Num (- of_nat k)) = take (length xs - k) xs)"
  using searchContent_fetched [OF assms(2), of query n]
    intelligentSearch_fetched [OF assms(2), of query n]
    searchContent_body_zero [OF assms(1,3), of query]
    intelligentSearch_body_zero [OF assms(1,3), of query]
    slice0_negative [of k xs]
  by simp

lemma sample_store_scorable:
  "fetched_at sample_store ''tours'' (served sample_store)
     = Some [paris_getaway, tokyo_adventure, paris_by_night] \<and>
   list_all scorable [paris_getaway, tokyo_adventure, paris_by_night]"
  by code_simp

theorem zero_maxResults_empty_witness:
  "to_integer NaN = 0 \<and>
   fetched_at sample_store ''tours'' (served sample_store)
     = Some [paris_getaway, tokyo_adventure, paris_by_night] \<and>
   list_all scorable [paris_getaway, tokyo_adventure, paris_by_night] \<and>
   fst (searchContent ''paris'' ''tours'' NaN sample_store) = Inr [] \<and>
   fst (intelligentSearch ''paris'' ''tours'' NaN sample_store) = Inr []"
proof -
  have z: "to_integer NaN = 0" by simp
  have f: "fetched_at sample_store ''tours'' (served sample_store)
             = Some [paris_getaway, tokyo_adventure, paris_by_night]"
    using sample_store_scorable by blast
  have s: "list_all scorable [paris_getaway, tokyo_adventure, paris_by_night]"
    using sample_store_scorable by blast
  have "searchContent ''paris'' ''tours'' NaN sample_store
          = (Inr [], sample_store\<lparr>served := Suc (served sample_store)\<rparr>) \<and>
        intelligentSearch ''paris'' ''tours'' NaN sample_store
          = (Inr [], sample_store\<lparr>served := Suc (served sample_store)\<rparr>)"
    using zero_maxResults_empty [OF z f s, of "''paris''" 1 "[] :: nat list"] by blast
  then show ?thesis
    using z f s by simp
qed

text \<open>
  C6 as it is stated fails for a negative \<open>maxResults\<close>: with \<open>maxResults = -1\<close> and two
  entries that match, \<open>intelligentSearch\<close> returns the first of them.
\<close>

theorem negative_maxResults_nonempty_counterexample:
  "fst (intelligentSearch ''paris'' ''tours'' (Num (- 1)) sample_store) =
     Inr [Annotated \<lparr>entry = paris_getaway, score = 16, relevance = Some 16\<rparr>]"
  by code_simp


section \<open>Failures\<close>

lemma upstream_text_present:
  "api_error_message err = Some m \<Longrightarrow> m \<noteq> [] \<Longrightarrow> upstream_text err = m"
  by (simp add: upstream_text_def)

lemma upstream_text_absent:
  "api_error_message err = None \<or> api_error_message err = Some [] \<Longrightarrow>
   upstream_text err = message err"
  by (auto simp: upstream_text_def)

text \<open>
  C7: when the request for the entries fails, \<open>intelligentSearch\<close> returns what
  \<open>searchContent\<close> returns for the same query, content type and \<open>maxResults\<close> (on
  the store as the failed request left it), whereas \<open>searchContent\<close>, like
  \<open>getAllEntries\<close>, throws an \<open>Error\<close> whose message ends with the message of the
  failed request: the \<open>error_message\<close> of the response body when the store sent one
  that is not empty, and otherwise the message of the error object.
\<close>

theorem fetch_failure_fallback:
  assumes "store w ct 100 (served w) = Fails err"
  shows "intelligentSearch query ct n w
           = searchContent query ct n (w\<lparr>served := Suc (served w)\<rparr>) \<and>
         (\<forall>m. api_error_message err = Some m \<and> m \<noteq> [] \<longrightarrow>
            searchContent query ct n w =
              (Inl (Error (''Failed to search content: Failed to fetch entries: '' @ m)),
               w\<lparr>served := Suc (served w)\<rparr>) \<and>
            getAllEntries ct 100 w =
              (Inl (Error (''Failed to fetch entries: '' @ m)),
               w\<lparr>served := Suc (served w)\<rparr>)) \<and>
         (api_error_message err = None \<or> api_error_message err = Some [] \<longrightarrow>
            searchContent query ct n w =
              (Inl (Error (''Failed to search content: Failed to fetch entries: '' @ message err)),
               w\<lparr>served := Suc (served w)\<rparr>) \<and>
            getAllEntries ct 100 w =
              (Inl (Error (''Failed to fetch entries: '' @ message err)),
               w\<lparr>served := Suc (served w)\<rparr>))"
proof -
  have i: "intelligentSearch query ct n w
             = searchContent query ct n (w\<lparr>served := Suc (served w)\<rparr>)"
    by (rule intelligentSearch_failed [OF assms])
  have s: "searchContent query ct n w =
             (Inl (Error (''Failed to search content: Failed to fetch entries: '' @ upstream_text err)),
              w\<lparr>served := Suc (served w)\<rparr>)"
    by (rule searchContent_failed [OF assms])
  have g: "getAllEntries ct 100 w =
             (Inl (Error (''Failed to fetch entries: '' @ upstream_text err)),
              w\<lparr>served := Suc (served w)\<rparr>)"
    using assms by (simp add: getAllEntries_fetched)
  have p: "searchContent query ct n w =
              (Inl (Error (''Failed to search content: Failed to fetch entries: '' @ m)),
               w\<lparr>served := Suc (served w)\<rparr>) \<and>
           getAllEntries ct 100 w =
              (Inl (Error (''Failed to fetch entries: '' @ m)),
               w\<lparr>served := Suc (served w)\<rparr>)"
    if "api_error_message err = Some m" and "m \<noteq> []" for m
    using s g upstream_text_present [OF that] by simp
  have a: "searchContent query ct n w =
              (Inl (Error (''Failed to search content: Failed to fetch entries: '' @ message err)),
               w\<lparr>served := Suc (served w)\<rparr>) \<and>
           getAllEntries ct 100 w =
              (Inl (Error (''Failed to fetch entries: '' @ message err)),
               w\<lparr>served := Suc (served w)\<rparr>)"
    if "api_error_message err = None \<or> api_error_message err = Some []"
    using s g upstream_text_absent [OF that] by simp
  from i p a show ?thesis by blast
qed

lemma flaky_store_fails:
  "store flaky_store ''tours'' 100 (served flaky_store) = Fails invalid_token \<and>
   api_error_message invalid_token = Some ''Invalid token''"
  by (simp add: flaky_store_def invalid_token_def)

lemma offline_store_fails:
  "store offline_store ''tours'' 100 (served offline_store) = Fails network_timeout \<and>
   api_error_message network_timeout = None \<and>
   message network_timeout = ''timeout of 5000ms exceeded''"
  by (simp add: offline_store_def network_timeout_def)

lemma flaky_store_results:
  "fst (intelligentSearch ''paris'' ''tours'' (Num 10) flaky_store) =
     Inr [Annotated \<lparr>entry = paris_getaway, score = 6, relevance = None\<rparr>,
          Annotated \<lparr>entry = paris_by_night, score = 6, relevance = None\<rparr>] \<and>
   fst (searchContent ''paris'' ''tours'' (Num 10) flaky_store) =
     Inl (Error ''Failed to search content: Failed to fetch entries: Invalid token'')"
  by code_simp

lemma offline_store_results:
  "fst (intelligentSearch ''paris'' ''tours'' (Num 10) offline_store) =
     Inl (Error ''Failed to search content: Failed to fetch entries: timeout of 5000ms exceeded'') \<and>
   fst (searchContent ''paris'' ''tours'' (Num 10) offline_store) =
     Inl (Error ''Failed to search content: Failed to fetch entries: timeout of 5000ms exceeded'')"
  by code_simp

theorem fetch_failure_fallback_witness:
  "store flaky_store ''tours'' 100 (served flaky_store) = Fails invalid_token \<and>
   api_error_message invalid_token = Some ''Invalid token'' \<and>
   intelligentSearch ''paris'' ''tours'' (Num 10) flaky_store
     = searchContent ''paris'' ''tours'' (Num 10) (flaky_store\<lparr>served := Suc (served flaky_store)\<rparr>) \<and>
   fst (intelligentSearch ''paris'' ''tours'' (Num 10) flaky_store) =
     Inr [Annotated \<lparr>entry = paris_getaway, score = 6, relevance = None\<rparr>,
          Annotated \<lparr>entry = paris_by_night, score = 6, relevance = None\<rparr>] \<and>
   searchContent ''paris'' ''tours'' (Num 10) flaky_store =
     (Inl (Error ''Failed to search content: Failed to fetch entries: Invalid token''),
      flaky_store\<lparr>served := Suc (served flaky_store)\<rparr>) \<and>
   getAllEntries ''tours'' 100 flaky_store =
     (Inl (Error ''Failed to fetch entries: Invalid token''),
      flaky_store\<lparr>served := Suc (served flaky_store)\<rparr>) \<and>
   store offline_store ''tours'' 100 (served offline_store) = Fails network_timeout \<and>
   api_error_message network_timeout = None \<and>
   searchContent ''paris'' ''tours'' (Num 10) offline_store =
     (Inl (Error ''Failed to search content: Failed to fetch entries: timeout of 5000ms exceeded''),
      offline_store\<lparr>served := Suc (served offline_store)\<rparr>) \<and>
   getAllEntries ''tours'' 100 offline_store =
     (Inl (Error ''Failed to fetch entries: timeout of 5000ms exceeded''),
      offline_store\<lparr>served := Suc (served offline_store)\<rparr>) \<and>
   fst (intelligentSearch ''paris'' ''tours'' (Num 10) offline_store) =
     Inl (Error ''Failed to search content: Failed to fetch entries: timeout of 5000ms exceeded'')"
proof -
  have f: "store flaky_store ''tours'' 100 (served flaky_store) = Fails invalid_token"
    using flaky_store_fails by blast
  have fm: "api_error_message invalid_token = Some ''Invalid token''"
    using flaky_store_fails by blast
  have ne: "''Invalid token'' \<noteq> []"
    by simp
  have 1: "intelligentSearch ''paris'' ''tours'' (Num 10) flaky_store
     = searchContent ''paris'' ''tours'' (Num 10) (flaky_store\<lparr>served := Suc (served flaky_store)\<rparr>) \<and>
   searchContent ''paris'' ''tours'' (Num 10) flaky_store =
     (Inl (Error (''Failed to search content: Failed to fetch entries: '' @ ''Invalid token'')),
      flaky_store\<lparr>served := Suc (served flaky_store)\<rparr>) \<and>
   getAllEntries ''tours'' 100 flaky_store =
     (Inl (Error (''Failed to fetch entries: '' @ ''Invalid token'')),
      flaky_store\<lparr>served := Suc (served flaky_store)\<rparr>)"
    using fetch_failure_fallback [OF f, of "''paris''" "Num 10"] fm ne by blast
  have o: "store offline_store ''tours'' 100 (served offline_store) = Fails network_timeout"
    using offline_store_fails by blast
  have om: "api_error_message network_timeout = None"
    using offline_store_fails by blast
  have ot: "message network_timeout = ''timeout of 5000ms exceeded''"
    using offline_store_fails by blast
  have 2: "searchContent ''paris'' ''tours'' (Num 10) offline_store =
     (Inl (Error (''Failed to search content: Failed to fetch entries: '' @ message network_timeout)),
      offline_store\<lparr>served := Suc (served offline_store)\<rparr>) \<and>
   getAllEntries ''tours'' 100 offline_store =
     (Inl (Error (''Failed to fetch entries: '' @ message network_timeout)),
      offline_store\<lparr>served := Suc (served offline_store)\<rparr>)"
    using fetch_failure_fallback [OF o, of "''paris''" "Num 10"] om by blast
  show ?thesis
    using f fm o om 1 2 flaky_store_results offline_store_results
    by (simp add: ot)
qed

text \<open>
  C9 fails on the code: an entry with an empty description and a number in the field
  \<open>paris\<close> makes the scoring of both searches throw a \<open>TypeError\<close>, since the number
  is what \<open>entry.description || entry.paris\<close> gives and a number has no
  \<open>toLowerCase\<close>; both searches then end with the error of \<open>searchContent\<close>. The same
  function filters the values of the entry by \<open>typeof value === 'string'\<close> for its third
  weight.
\<close>

theorem non_string_field_throws:
  "score_plain [''paris''] spreadsheet_entry = Inl (TypeError not_a_function) \<and>
   score_intelligent ''paris'' [''paris''] spreadsheet_entry = Inl (TypeError not_a_function) \<and>
   fst (searchContent ''paris'' ''tours'' (Num 10) spreadsheet_store)
     = Inl (Error (''Failed to search content: '' @ not_a_function)) \<and>
   fst (intelligentSearch ''paris'' ''tours'' (Num 10) spreadsheet_store)
     = Inl (Error (''Failed to search content: '' @ not_a_function))"
  by code_simp


section \<open>A match in the title\<close>

lemma get_prop_JStr: "get_prop e k = JStr t \<Longrightarrow> map_of e k = Some (JStr t)"
  by (simp add: get_prop_def split: option.splits)

lemma all_text_includes:
  assumes "get_prop e k = JStr t" and "js_includes (toLowerCase t) term"
  shows "js_includes (all_text e) term"
proof -
  have "t \<in> set (string_values e)"
    using assms(1) by (intro string_values_member get_prop_JStr)
  then have "sublist t (js_join '' '' (string_values e))"
    by (rule js_join_member)
  then have "sublist (toLowerCase t) (all_text e)"
    unfolding all_text_def by (rule js_includes_lower_mono)
  moreover have "sublist term (toLowerCase t)"
    using assms(2) by (simp add: js_includes_iff)
  ultimately show ?thesis
    unfolding js_includes_iff by (rule sublist_order.order_trans [rotated])
qed

lemma plain_term_mono: "s \<le> plain_term title description allText term s"
  by (simp add: plain_term_def Let_def)

lemma plain_term_add: "plain_term title description allText term s
    = s + plain_term title description allText term 0"
  by (simp add: plain_term_def Let_def)

lemma fold_plain_term_mono: "s \<le> fold (plain_term title description allText) terms s"
proof (induction terms arbitrary: s)
  case Nil
  show ?case by simp
next
  case (Cons t ts)
  have "s \<le> plain_term title description allText t s"
    by (rule plain_term_mono)
  also have "\<dots> \<le> fold (plain_term title description allText) ts (plain_term title description allText t s)"
    by (rule Cons.IH)
  finally show ?case by simp
qed

lemma fold_plain_term_six:
  assumes "term \<in> set terms" and "js_includes title term" and "js_includes allText term"
  shows "s + 6 \<le> fold (plain_term title description allText) terms s"
  using assms(1)
proof (induction terms arbitrary: s)
  case Nil
  then show ?case by simp
next
  case (Cons t ts)
  show ?case
  proof (cases "t = term")
    case True
    have "s + 6 \<le> plain_term title description allText t s"
      using True assms(2,3) by (simp add: plain_term_def Let_def)
    also have "\<dots> \<le> fold (plain_term title description allText) ts (plain_term title description allText t s)"
      by (rule fold_plain_term_mono)
    finally show ?thesis by simp
  next
    case False
    with Cons.prems have "term \<in> set ts" by simp
    from Cons.IH [OF this, of "plain_term title description allText t s"]
    have "plain_term title description allText t s + 6
            \<le> fold (plain_term title description allText) ts (plain_term title description allText t s)" .
    moreover have "s \<le> plain_term title description allText t s"
      by (rule plain_term_mono)
    ultimately show ?thesis by simp
  qed
qed

lemma title_value_JStr: "get_prop e ''title'' = JStr t \<Longrightarrow> title_value e = JStr t"
  by (simp add: title_value_def js_or_def)

text \<open>
  C10: in \<open>searchContent\<close>, for an entry whose title is a string, the lowercased title
  is what the scoring reads as the title, and a term that occurs in it occurs in the
  lowercased text of all string fields as well; so the term adds at least 6 to the score,
  and the score of an entry is at least 6 when one of the search terms occurs in its
  title.
\<close>

theorem title_match_counts_six:
  assumes "get_prop e ''title'' = JStr t" and "js_includes (toLowerCase t) term"
  shows "call_toLowerCase (title_value e) = Inr (toLowerCase t) \<and>
         js_includes (all_text e) term \<and>
         s + 6 \<le> plain_term (toLowerCase t) description (all_text e) term s \<and>
         (\<forall>y. term \<in> set terms \<and> score_plain terms e = Inr y \<longrightarrow> 6 \<le> score y)"
proof -
  have t: "call_toLowerCase (title_value e) = Inr (toLowerCase t)"
    using assms(1) by (simp add: title_value_JStr)
  have a: "js_includes (all_text e) term"
    using assms by (rule all_text_includes)
  have p: "s + 6 \<le> plain_term (toLowerCase t) description (all_text e) term s"
    using assms(2) a by (simp add: plain_term_def Let_def)
  have y: "6 \<le> score y" if "term \<in> set terms" and "score_plain terms e = Inr y" for y
  proof -
    from that(2) t obtain d where
      "score y = fold (plain_term (toLowerCase t) d (all_text e)) terms 0"
      unfolding score_plain_def by (auto split: sum.splits)
    then show ?thesis
      using fold_plain_term_six [OF that(1) assms(2) a, of 0 d] by simp
  qed
  from t a p y show ?thesis by blast
qed

lemma paris_getaway_title:
  "get_prop paris_getaway ''title'' = JStr ''Paris Getaway'' \<and>
   js_includes (toLowerCase ''Paris Getaway'') ''paris'' \<and>
   score_plain [''paris''] paris_getaway
     = Inr \<lparr>entry = paris_getaway, score = 6, relevance = None\<rparr>"
  by code_simp

theorem title_match_counts_six_witness:
  "get_prop paris_getaway ''title'' = JStr ''Paris Getaway'' \<and>
   js_includes (toLowerCase ''Paris Getaway'') ''paris'' \<and>
   js_includes (all_text paris_getaway) ''paris'' \<and>
   0 + 6 \<le> plain_term (toLowerCase ''Paris Getaway'') ''romantic trip'' (all_text paris_getaway) ''paris'' 0 \<and>
   score_plain [''paris''] paris_getaway
     = Inr \<lparr>entry = paris_getaway, score = 6, relevance = None\<rparr>"
proof -
  have g: "get_prop paris_getaway ''title'' = JStr ''Paris Getaway''"
    using paris_getaway_title by blast
  have i: "js_includes (toLowerCase ''Paris Getaway'') ''paris''"
    using paris_getaway_title by blast
  from title_match_counts_six [OF g i, of 0 "''romantic trip''" "[''paris'']"] g i paris_getaway_title
  show ?thesis by blast
qed



section \<open>The score of intelligent search\<close>

lemma fold_intelligent_term:
  "fold (intelligent_term title description content) terms s =
     s + sum_list (map (\<lambda>term.
           (if js_includes title term then 5 else 0) +
           (if js_includes description term then 2 else 0) +
           (if fuzzyMatch term content then 1 else 0)) terms)"
  by (induction terms arbitrary: s) (simp_all add: intelligent_term_def Let_def)

lemma map_throwing_member:
  "map_throwing f xs = Inr ys \<Longrightarrow> y \<in> set ys \<Longrightarrow> \<exists>x \<in> set xs. f x = Inr y"
proof (induction xs arbitrary: ys)
  case Nil
  then show ?case by simp
next
  case (Cons x xs)
  from Cons.prems(1) obtain z zs where z: "f x = Inr z" and zs: "map_throwing f xs = Inr zs"
    and ys: "ys = z # zs"
    by (auto split: sum.splits)
  show ?case
  proof (cases "y = z")
    case True
    with z show ?thesis by simp
  next
    case False
    with Cons.prems(2) ys have "y \<in> set zs" by simp
    from Cons.IH [OF zs this] show ?thesis by auto
  qed
qed

lemma set_ranked: "set (ranked cands n) \<subseteq> set cands"
proof -
  have "set (ranked cands n) \<subseteq> set (js_sort by_score (filter (\<lambda>h. 0 < score h) cands))"
    unfolding ranked_def by (subst slice0_take) (rule set_take_subset)
  then show ?thesis
    by (auto simp: js_sort_by_score)
qed

text \<open>
  C2, as amended: for an entry whose title, and whose first truthy field of description,
  paris and india, is a string or missing, and for the terms that are the pieces of the
  lowercased enhanced query between single space characters, \<open>intelligentSearch\<close>
  scores the entry with 10 if the lowercased title, a space and the lowercased description
  contain the lowercased original query, plus, for each term, 5 if it occurs in the
  lowercased title, 2 if it occurs in the lowercased description and 1 if it fuzzy-matches
  that text of title, space and description; the relevance is the score over the number of
  terms, or over 1 if that is larger. Every scored entry that \<open>intelligentSearch\<close> returns
  for a query that is not empty is this scoring of a fetched entry.
\<close>

theorem intelligent_score_formula:
  "(textual (title_value e) \<and> textual (description_intelligent e) \<longrightarrow>
      score_intelligent query (js_split CHR '' '' (toLowerCase (enhanceQuery query))) e =
        (let title = toLowerCase (text_of (title_value e));
             description = toLowerCase (text_of (description_intelligent e));
             content = title @ '' '' @ description;
             terms = js_split CHR '' '' (toLowerCase (enhanceQuery query));
             total = (if js_includes content (toLowerCase query) then 10 else 0) +
                     sum_list (map (\<lambda>term.
                         (if js_includes title term then 5 else 0) +
                         (if js_includes description term then 2 else 0) +
                         (if fuzzyMatch term content then 1 else 0)) terms)
         in Inr \<lparr>entry = e, score = total,
                 relevance = Some (of_int total / of_nat (max (length terms) 1))\<rparr>)) \<and>
   (query \<noteq> [] \<and> intelligentSearch_body entries query n = Inr result \<and>
      Annotated h \<in> set result \<longrightarrow>
      entry h \<in> set entries \<and>
      score_intelligent query (js_split CHR '' '' (toLowerCase (enhanceQuery query))) (entry h) = Inr h)"
proof -
  let ?ts = "js_split CHR '' '' (toLowerCase (enhanceQuery query))"
  have a: "score_intelligent query ?ts e =
        (let title = toLowerCase (text_of (title_value e));
             description = toLowerCase (text_of (description_intelligent e));
             content = title @ '' '' @ description;
             terms = ?ts;
             total = (if js_includes content (toLowerCase query) then 10 else 0) +
                     sum_list (map (\<lambda>term.
                         (if js_includes title term then 5 else 0) +
                         (if js_includes description term then 2 else 0) +
                         (if fuzzyMatch term content then 1 else 0)) terms)
         in Inr \<lparr>entry = e, score = total,
                 relevance = Some (of_int total / of_nat (max (length terms) 1))\<rparr>)"
    if "textual (title_value e)" and "textual (description_intelligent e)"
    using score_intelligent_textual [OF that, of query ?ts]
    by (simp only: Let_def fold_intelligent_term)
  have b: "entry h \<in> set entries \<and> score_intelligent query ?ts (entry h) = Inr h"
    if q: "query \<noteq> []" and r: "intelligentSearch_body entries query n = Inr result"
      and h: "Annotated h \<in> set result"
  proof -
    have ne: "entries \<noteq> []"
    proof
      assume "entries = []"
      then have "result = []"
        using r by (simp add: intelligentSearch_body_def slice0_def)
      with h show False by simp
    qed
    have "intelligentSearch_body entries query n =
            (case map_throwing (score_intelligent query ?ts) entries of
               Inl err \<Rightarrow> Inl err
             | Inr scoredEntries \<Rightarrow> Inr (map Annotated (ranked scoredEntries n)))"
      using q ne by (simp add: intelligentSearch_body_def)
    with r obtain cands where c: "map_throwing (score_intelligent query ?ts) entries = Inr cands"
      and res: "result = map Annotated (ranked cands n)"
      by (cases "map_throwing (score_intelligent query ?ts) entries") auto
    from h res have "h \<in> set (ranked cands n)" by auto
    then have "h \<in> set cands" using set_ranked by blast
    from map_throwing_member [OF c this] obtain x where x: "x \<in> set entries"
      and fx: "score_intelligent query ?ts x = Inr h" by blast
    from score_intelligent_entry [OF fx] x fx show ?thesis by simp
  qed
  from a b show ?thesis by blast
qed

lemma paris_getaway_textual:
  "textual (title_value paris_getaway) \<and> textual (description_intelligent paris_getaway)"
  by code_simp

lemma paris_getaway_intelligent:
  "score_intelligent ''Paris food'' (js_split CHR '' '' (toLowerCase (enhanceQuery ''Paris food''))) paris_getaway
     = Inr \<lparr>entry = paris_getaway, score = 6, relevance = Some 1\<rparr>"
  by code_simp

theorem intelligent_score_formula_witness:
  "textual (title_value paris_getaway) \<and> textual (description_intelligent paris_getaway) \<and>
   score_intelligent ''Paris food'' (js_split CHR '' '' (toLowerCase (enhanceQuery ''Paris food''))) paris_getaway
     = Inr \<lparr>entry = paris_getaway, score = 6, relevance = Some 1\<rparr> \<and>
   Inr \<lparr>entry = paris_getaway, score = 6, relevance = Some 1\<rparr> =
        (let title = toLowerCase (text_of (title_value paris_getaway));
             description = toLowerCase (text_of (description_intelligent paris_getaway));
             content = title @ '' '' @ description;
             terms = js_split CHR '' '' (toLowerCase (enhanceQuery ''Paris food''));
             total = (if js_includes content (toLowerCase ''Paris food'') then 10 else 0) +
                     sum_list (map (\<lambda>term.
                         (if js_includes title term then 5 else 0) +
                         (if js_includes description term then 2 else 0) +
                         (if fuzzyMatch term content then 1 else 0)) terms)
         in (Inr \<lparr>entry = paris_getaway, score = total,
                 relevance = Some (of_int total / of_nat (max (length terms) 1))\<rparr> :: js_error + scored))"
  using intelligent_score_formula [of paris_getaway "''Paris food''"]
    paris_getaway_textual paris_getaway_intelligent
  by simp

text \<open>
  C2 as it is stated fails on whitespace other than the space: the query of the two lines
  "tokyo" and "adventure" has, split on whitespace, two terms that each occur in the title
  "Tokyo Adventure", which gives 11 by the weights of the claim; \<open>split(' ')\<close> leaves
  the query one term that occurs nowhere, and the score is 0.
\<close>

theorem multiline_query_counterexample:
  "score_intelligent (''tokyo'' @ [CHR 0x0A] @ ''adventure'')
      (js_split CHR '' '' (toLowerCase (enhanceQuery (''tokyo'' @ [CHR 0x0A] @ ''adventure''))))
      tokyo_adventure
     = Inr \<lparr>entry = tokyo_adventure, score = 0, relevance = Some 0\<rparr> \<and>
   intelligent_score_spec ''Tokyo Adventure'' ''city tour'' (''tokyo'' @ [CHR 0x0A] @ ''adventure'') = 11"
  by code_simp

end
